theory Spec2Isabelle
  imports Main "HOL-Library.Word" "HOL-Library.Multiset"
begin

section \<open>Strings and errors\<close>

text \<open>
  Go strings are byte sequences; they are modelled as \<open>string\<close> (a list of \<open>char\<close>,
  one per byte). The helpers below are the functions of package \<open>strings\<close>,
  \<open>path/filepath\<close> and \<open>fmt\<close> that the repository calls.
\<close>

fun HasPrefix :: "string \<Rightarrow> string \<Rightarrow> bool" where
  "HasPrefix s [] = True"
| "HasPrefix [] (p # ps) = False"
| "HasPrefix (c # cs) (p # ps) = (c = p \<and> HasPrefix cs ps)"

text \<open>\<open>strings.Contains(s, substr)\<close>: \<open>substr\<close> occurs somewhere inside \<open>s\<close>.\<close>

fun Contains :: "string \<Rightarrow> string \<Rightarrow> bool" where
  "Contains [] sub = (sub = [])"
| "Contains (c # cs) sub = (HasPrefix (c # cs) sub \<or> Contains cs sub)"

text \<open>\<open>strings.Split(s, "/")\<close> for a one-byte separator; the result is never empty.\<close>

fun Split :: "string \<Rightarrow> char \<Rightarrow> string list" where
  "Split [] sep = [[]]"
| "Split (c # cs) sep =
     (if c = sep then [] # Split cs sep
      else (case Split cs sep of [] \<Rightarrow> [[c]] | part # parts \<Rightarrow> (c # part) # parts))"

text \<open>
  \<open>filepath.Ext\<close>: the suffix that starts at the last dot of the last path element,
  empty when that element has no dot. The scan runs from the end of the string and stops
  at a path separator, which is \<open>/\<close> here (on Windows a backslash is one too). It
  decides only whether an extension is appended to the name.
\<close>

fun ExtRev :: "string \<Rightarrow> string \<Rightarrow> string" where
  "ExtRev [] acc = []"
| "ExtRev (c # cs) acc =
     (if c = CHR ''/'' then []
      else if c = CHR ''.'' then c # acc
      else ExtRev cs (c # acc))"

definition Ext :: "string \<Rightarrow> string" where
  "Ext path = ExtRev (rev path) []"

text \<open>
  \<open>strings.ToLower\<close> for ASCII text: the letters \<open>A\<close>..\<open>Z\<close> are mapped to
  \<open>a\<close>..\<open>z\<close> and every other byte is kept (the source also lowers letters outside
  ASCII). It is used only to choose the extension that is appended to a name without
  one; no property below depends on which extension is chosen.
\<close>

definition lowerChar :: "char \<Rightarrow> char" where
  "lowerChar c =
     (let n = (of_char c :: nat) in if 65 \<le> n \<and> n \<le> 90 then char_of (n + 32) else c)"

definition ToLower :: "string \<Rightarrow> string" where
  "ToLower s = map lowerChar s"

text \<open>The verb \<open>%d\<close> of \<open>fmt\<close>: decimal digits, with a minus sign for a negative value.\<close>

definition digitChar :: "nat \<Rightarrow> char" where
  "digitChar d = char_of (48 + d)"

fun showNat :: "nat \<Rightarrow> string" where
  "showNat n = (if n < 10 then [digitChar n] else showNat (n div 10) @ [digitChar (n mod 10)])"

declare showNat.simps [simp del]

definition showInt :: "int \<Rightarrow> string" where
  "showInt i = (if i < 0 then CHR ''-'' # showNat (nat (- i)) else showNat (nat i))"

text \<open>
  Values of Go's \<open>error\<close> interface that the repository creates or receives:
  the two context errors, an opaque error of a library with its message,
  \<open>fmt.Errorf(prefix + "%w", err)\<close>, \<open>telegraph.ValidationError\<close> and
  \<open>telegraph.MultiError\<close>. A nil error is \<open>None\<close> of \<open>error option\<close>.
\<close>

datatype error =
    Canceled
  | DeadlineExceeded
  | ErrorString string
  | Wrapf string error
  | ValidationError string string
  | MultiError "error list"

fun joinLines :: "string list \<Rightarrow> string" where
  "joinLines [] = []"
| "joinLines [s] = s"
| "joinLines (s # t # ss) = s @ [CHR 0x0A] @ joinLines (t # ss)"

text \<open>The method \<open>Error()\<close>; for \<open>MultiError\<close> it is the one of types.go.\<close>

fun Error :: "error \<Rightarrow> string" where
  "Error Canceled = ''context canceled''"
| "Error DeadlineExceeded = ''context deadline exceeded''"
| "Error (ErrorString s) = s"
| "Error (Wrapf pre e) = pre @ Error e"
| "Error (ValidationError field message) = ''validation error: '' @ field @ '' '' @ message"
| "Error (MultiError []) = ''no errors''"
| "Error (MultiError [e]) = Error e"
| "Error (MultiError (e # e' # es)) = joinLines (map Error (e # e' # es))"

text \<open>\<open>(*MultiError).AddError\<close>: a nil error is not recorded.\<close>

definition AddError :: "error list \<Rightarrow> error option \<Rightarrow> error list" where
  "AddError errs err = (case err of None \<Rightarrow> errs | Some e \<Rightarrow> errs @ [e])"

section \<open>The data model of package telegraph\<close>

text \<open>
  The values of an attribute map have Go type \<open>interface{}\<close> and come from decoded
  JSON: a string, a number, a boolean, null, an array or an object. The parser only asks
  whether a value is a string; the payload of the other values is never read.
\<close>

datatype attr_value =
    VString string
  | VNumber int
  | VBool bool
  | VNull
  | VArray "attr_value list"
  | VObject "(string \<times> attr_value) list"

text \<open>\<open>Attrs\<close> is \<open>None\<close> for a nil map.\<close>

datatype ContentNode =
  ContentNode (Tag: string) (Attrs: "(string \<rightharpoonup> attr_value) option") (Children: "ContentNode list")

record MediaItem =
  URL :: string
  Filename :: string

record Content =
  Title :: string
  Nodes :: "ContentNode list"

section \<open>The media parser\<close>

record MediaParser =
  supportedTags :: "string list"
  fileExtensions :: "string list"
  urlFilter :: "(string \<Rightarrow> bool) option"

definition DefaultConfig :: MediaParser where
  "DefaultConfig =
     \<lparr> supportedTags = [''img'', ''video'', ''audio'', ''source''],
       fileExtensions = [''.jpg'', ''.jpeg'', ''.png'', ''.gif'', ''.webp'', ''.mp4'', ''.mov'',
                         ''.avi'', ''.mp3'', ''.wav''],
       urlFilter = None \<rparr>"

text \<open>
  \<open>ParsedMedia\<close>: the embedded \<open>MediaItem\<close> is the field \<open>Media\<close>; the fields
  \<open>Tag\<close> and \<open>Title\<close> are named \<open>PTag\<close> and \<open>PTitle\<close>. The index is a Go
  \<open>int\<close> that counts yielded items from 0 and cannot overflow.
\<close>

record ParsedMedia =
  Media :: MediaItem
  PTag :: string
  Alt :: string
  PTitle :: string
  NodeIndex :: nat

definition isMediaTag :: "MediaParser \<Rightarrow> string \<Rightarrow> bool" where
  "isMediaTag p tag = (tag \<in> set (supportedTags p))"

definition extractStringAttr :: "(string \<rightharpoonup> attr_value) \<Rightarrow> string \<Rightarrow> string" where
  "extractStringAttr attrs key = (case attrs key of Some (VString val) \<Rightarrow> val | _ \<Rightarrow> [])"

text \<open>
  The loop of \<open>addExtensionFromURL\<close> over \<open>p.fileExtensions\<close>. The slice expression
  \<open>ext[1:]\<close> panics on an empty \<open>ext\<close>: a panic is the value \<open>None\<close>.
\<close>

fun guessExtension :: "string list \<Rightarrow> string \<Rightarrow> string \<Rightarrow> string option" where
  "guessExtension [] filename lowerURL = Some (filename @ ''.jpg'')"
| "guessExtension (ext # exts) filename lowerURL =
     (if ext = [] then None
      else if Contains lowerURL (tl ext) then Some (filename @ ext)
      else guessExtension exts filename lowerURL)"

definition addExtensionFromURL :: "MediaParser \<Rightarrow> string \<Rightarrow> string \<Rightarrow> string option" where
  "addExtensionFromURL p filename url =
     (if Contains url ''/file/'' then Some (filename @ ''.jpg'')
      else guessExtension (fileExtensions p) filename (ToLower url))"

definition generateFilename :: "MediaParser \<Rightarrow> string \<Rightarrow> nat \<Rightarrow> string option" where
  "generateFilename p url index =
     (let baseFilename = (if Contains url ''/'' then last (Split url (CHR ''/'')) else url);
          baseFilename = takeWhile (\<lambda>c. c \<noteq> CHR ''?'' \<and> c \<noteq> CHR ''#'') baseFilename;
          named = (if Ext baseFilename = [] then addExtensionFromURL p baseFilename url
                   else Some baseFilename)
      in case named of
           None \<Rightarrow> None
         | Some baseFilename \<Rightarrow> Some (showNat index @ ''_'' @ baseFilename))"

text \<open>
  \<open>parseMediaNode\<close>: \<open>None\<close> is a panic, \<open>Some None\<close> the return \<open>(ParsedMedia{}, false)\<close>,
  \<open>Some (Some item)\<close> the return \<open>(item, true)\<close>.
\<close>

definition parseMediaNode :: "MediaParser \<Rightarrow> ContentNode \<Rightarrow> nat \<Rightarrow> ParsedMedia option option" where
  "parseMediaNode p node index =
     (case Attrs node of
        None \<Rightarrow> Some None
      | Some attrs \<Rightarrow>
          (case attrs ''src'' of
             Some (VString src) \<Rightarrow>
               if src = [] then Some None
               else if (case urlFilter p of None \<Rightarrow> False | Some accept \<Rightarrow> \<not> accept src) then Some None
               else (case generateFilename p src index of
                       None \<Rightarrow> None
                     | Some filename \<Rightarrow>
                         Some (Some \<lparr> Media = \<lparr> URL = src, Filename = filename \<rparr>,
                                      PTag = Tag node,
                                      Alt = extractStringAttr attrs ''alt'',
                                      PTitle = extractStringAttr attrs ''title'',
                                      NodeIndex = index \<rparr>))
           | _ \<Rightarrow> Some None))"

text \<open>
  The body of the loop of \<open>walkNodesForMedia\<close> up to the recursive call: the node is
  offered to \<open>yield\<close> when it parses. \<open>yield\<close> is the consumer: it takes the
  consumer's state and the item and gives the new state and the flag it returns.
  \<open>Returned\<close> is the statement \<open>return\<close> of the walker, taken when \<open>yield\<close> gave
  false; the counter is incremented only after a \<open>yield\<close> that gave true.
\<close>

datatype 'c step = Panicked | Returned "nat \<times> 'c" | Continue "nat \<times> 'c"

definition offerNode ::
  "MediaParser \<Rightarrow> ('c \<Rightarrow> ParsedMedia \<Rightarrow> 'c \<times> bool) \<Rightarrow> ContentNode \<Rightarrow> nat \<times> 'c \<Rightarrow> 'c step" where
  "offerNode p yield node s =
     (case s of (mediaIndex, c) \<Rightarrow>
        if isMediaTag p (Tag node) then
          (case parseMediaNode p node mediaIndex of
             None \<Rightarrow> Panicked
           | Some None \<Rightarrow> Continue (mediaIndex, c)
           | Some (Some item) \<Rightarrow>
               (case yield c item of
                  (c', cont) \<Rightarrow>
                    if \<not> cont then Returned (mediaIndex, c') else Continue (mediaIndex + 1, c')))
        else Continue (mediaIndex, c))"

text \<open>
  \<open>walkNodesForMedia\<close>: the state is the shared counter \<open>*mediaIndex\<close> and the
  consumer's state. The function has no result in the source, so a caller does not learn
  whether a recursive call stopped at \<open>return\<close> or reached the end of its slice: after
  the call on the children the loop goes on with the next node.
\<close>

fun walkNodesForMedia ::
  "MediaParser \<Rightarrow> ('c \<Rightarrow> ParsedMedia \<Rightarrow> 'c \<times> bool) \<Rightarrow> ContentNode list \<Rightarrow> nat \<times> 'c \<Rightarrow> (nat \<times> 'c) option" where
  "walkNodesForMedia p yield [] s = Some s"
| "walkNodesForMedia p yield (ContentNode tag attrs children # nodes) s =
     (case offerNode p yield (ContentNode tag attrs children) s of
        Panicked \<Rightarrow> None
      | Returned s' \<Rightarrow> Some s'
      | Continue s' \<Rightarrow>
          (case (if length children > 0 then walkNodesForMedia p yield children s' else Some s') of
             None \<Rightarrow> None
           | Some s'' \<Rightarrow> walkNodesForMedia p yield nodes s''))"

text \<open>\<open>iterateMediaItems\<close>: the counter starts at 0; the result is the consumer's state.\<close>

definition iterateMediaItems ::
  "MediaParser \<Rightarrow> ContentNode list \<Rightarrow> ('c \<Rightarrow> ParsedMedia \<Rightarrow> 'c \<times> bool) \<Rightarrow> 'c \<Rightarrow> 'c option" where
  "iterateMediaItems p nodes yield c = map_option snd (walkNodesForMedia p yield nodes (0, c))"

text \<open>
  The loop \<open>for item := range seq { mediaItems = append(mediaItems, item) }\<close> as a
  consumer: it appends and asks for the next item.
\<close>

definition appendDetailed :: "ParsedMedia list \<Rightarrow> ParsedMedia \<Rightarrow> ParsedMedia list \<times> bool" where
  "appendDetailed mediaItems item = (mediaItems @ [item], True)"

definition appendMedia :: "MediaItem list \<Rightarrow> ParsedMedia \<Rightarrow> MediaItem list \<times> bool" where
  "appendMedia mediaItems item = (mediaItems @ [Media item], True)"

definition ExtractMedia :: "MediaParser \<Rightarrow> Content \<Rightarrow> MediaItem list option" where
  "ExtractMedia p content = iterateMediaItems p (Nodes content) appendMedia []"

definition ExtractMediaDetailed :: "MediaParser \<Rightarrow> Content \<Rightarrow> ParsedMedia list option" where
  "ExtractMediaDetailed p content = iterateMediaItems p (Nodes content) appendDetailed []"

text \<open>The statistics of the parser (\<open>parser.Stats\<close>).\<close>

record ParserStats =
  TotalNodes :: nat
  MediaNodes :: nat
  ValidMedia :: nat
  InvalidMedia :: nat
  UniqueURLs :: nat
  Errors :: "error list"

definition emptyParserStats :: ParserStats where
  "emptyParserStats =
     \<lparr> TotalNodes = 0, MediaNodes = 0, ValidMedia = 0, InvalidMedia = 0, UniqueURLs = 0,
       Errors = [] \<rparr>"

text \<open>\<open>countTotalNodes\<close>: the nodes of the slice and, for each of them, those below it.\<close>

fun countTotalNodes :: "ContentNode list \<Rightarrow> nat" where
  "countTotalNodes [] = 0"
| "countTotalNodes (ContentNode tag attrs children # nodes) =
     1 + countTotalNodes children + countTotalNodes nodes"

text \<open>
  The body of the loop of \<open>ExtractWithStats\<close>; its state is \<open>stats\<close>, \<open>mediaItems\<close>
  and \<open>urlSet\<close>. Both ways out of the body (\<open>continue\<close> and its end) ask for the
  next item.
\<close>

definition statsBody ::
  "ParserStats \<times> MediaItem list \<times> (string \<rightharpoonup> bool) \<Rightarrow> ParsedMedia \<Rightarrow>
   (ParserStats \<times> MediaItem list \<times> (string \<rightharpoonup> bool)) \<times> bool" where
  "statsBody st item =
     (case st of (stats, mediaItems, urlSet) \<Rightarrow>
        let stats = stats\<lparr>MediaNodes := MediaNodes stats + 1\<rparr> in
        if URL (Media item) = [] then
          ((stats\<lparr>InvalidMedia := InvalidMedia stats + 1,
                   Errors := AddError (Errors stats)
                     (Some (ErrorString (''empty URL in node '' @ showNat (NodeIndex item))))\<rparr>,
            mediaItems, urlSet), True)
        else
          ((stats\<lparr>ValidMedia := ValidMedia stats + 1\<rparr>,
            mediaItems @ [Media item],
            (if \<not> (case urlSet (URL (Media item)) of None \<Rightarrow> False | Some b \<Rightarrow> b)
             then urlSet(URL (Media item) \<mapsto> True) else urlSet)), True))"

definition ExtractWithStats :: "MediaParser \<Rightarrow> Content \<Rightarrow> (MediaItem list \<times> ParserStats) option" where
  "ExtractWithStats p content =
     (case iterateMediaItems p (Nodes content) statsBody (emptyParserStats, [], Map.empty) of
        None \<Rightarrow> None
      | Some (stats, mediaItems, urlSet) \<Rightarrow>
          Some (mediaItems,
                stats\<lparr>TotalNodes := countTotalNodes (Nodes content),
                       UniqueURLs := card (dom urlSet)\<rparr>))"

text \<open>
  \<open>DeduplicateURLs\<close>: \<open>slices.DeleteFunc\<close> calls the predicate once on every element, in
  order, and keeps the elements for which it gave false; the predicate reads and updates
  the map \<open>seen\<close>, in which a missing key reads as false.
\<close>

fun deleteSeen :: "(string \<Rightarrow> bool) \<Rightarrow> MediaItem list \<Rightarrow> MediaItem list" where
  "deleteSeen seen [] = []"
| "deleteSeen seen (item # items) =
     (if seen (URL item) then deleteSeen seen items
      else item # deleteSeen (seen(URL item := True)) items)"

definition DeduplicateURLs :: "MediaItem list \<Rightarrow> MediaItem list" where
  "DeduplicateURLs items = deleteSeen (\<lambda>url. False) items"

subsection \<open>Document order, as the specification words it\<close>

text \<open>
  Pre-order: an element comes before its children, the children before the following
  siblings, and a subtree is exhausted before the next sibling starts.
\<close>

fun preorder :: "ContentNode list \<Rightarrow> ContentNode list" where
  "preorder [] = []"
| "preorder (ContentNode tag attrs children # nodes) =
     ContentNode tag attrs children # preorder children @ preorder nodes"

text \<open>
  The acceptance filter of the specification: a node is a candidate when its tag is in the
  allow-set, and a candidate is accepted when it has a non-empty string-valued \<open>src\<close>
  that the URL predicate, if any, accepts; \<open>acceptedSrc\<close> is that value.
\<close>

definition acceptedSrc :: "MediaParser \<Rightarrow> ContentNode \<Rightarrow> string option" where
  "acceptedSrc p node =
     (if Tag node \<in> set (supportedTags p) then
        (case Attrs node of
           None \<Rightarrow> None
         | Some attrs \<Rightarrow>
             (case attrs ''src'' of
                Some (VString src) \<Rightarrow>
                  if src \<noteq> [] \<and> (case urlFilter p of None \<Rightarrow> True | Some accept \<Rightarrow> accept src)
                  then Some src else None
              | _ \<Rightarrow> None))
      else None)"

text \<open>
  A flat scan of a node list that numbers the accepted nodes densely from \<open>i\<close>; the
  walker is compared with this scan of the pre-order list.
\<close>

fun scanNodes :: "MediaParser \<Rightarrow> nat \<Rightarrow> ContentNode list \<Rightarrow> ParsedMedia list option" where
  "scanNodes p i [] = Some []"
| "scanNodes p i (node # nodes) =
     (if isMediaTag p (Tag node) then
        (case parseMediaNode p node i of
           None \<Rightarrow> None
         | Some None \<Rightarrow> scanNodes p i nodes
         | Some (Some item) \<Rightarrow> map_option ((#) item) (scanNodes p (i + 1) nodes))
      else scanNodes p i nodes)"

subsection \<open>Notions used to state the properties of the parser\<close>

text \<open>A consumer that never stops: its flag is true for every state and item.\<close>

definition alwaysMore :: "('c \<Rightarrow> ParsedMedia \<Rightarrow> 'c \<times> bool) \<Rightarrow> bool" where
  "alwaysMore yield = (\<forall>c item. snd (yield c item))"

text \<open>The state of a consumer after it has been given the items of a list, in order.\<close>

definition feed :: "('c \<Rightarrow> ParsedMedia \<Rightarrow> 'c \<times> bool) \<Rightarrow> ParsedMedia list \<Rightarrow> 'c \<Rightarrow> 'c" where
  "feed yield items c = fold (\<lambda>item c. fst (yield c item)) items c"

text \<open>No configured extension is the empty string, so \<open>ext[1:]\<close> never panics.\<close>

definition extensionsUsable :: "MediaParser \<Rightarrow> bool" where
  "extensionsUsable p = (\<forall>ext \<in> set (fileExtensions p). ext \<noteq> [])"

text \<open>Position \<open>i\<close> holds the first occurrence of its URL: no earlier item has that URL.\<close>

definition firstOccurrence :: "MediaItem list \<Rightarrow> nat \<Rightarrow> bool" where
  "firstOccurrence items i = (URL (items ! i) \<notin> set (map URL (take i items)))"

text \<open>
  A consumer that keeps what it receives and stops asking once it has \<open>k\<close> items: the
  loop \<open>for item := range seq { received = append(received, item); if len(received) >= k { break } }\<close>.
\<close>

definition stopAfter :: "nat \<Rightarrow> ParsedMedia list \<Rightarrow> ParsedMedia \<Rightarrow> ParsedMedia list \<times> bool" where
  "stopAfter k received item = (received @ [item], length received + 1 < k)"

subsection \<open>Example inputs\<close>

definition mediaNode :: "string \<Rightarrow> string \<Rightarrow> ContentNode list \<Rightarrow> ContentNode" where
  "mediaNode tag src children = ContentNode tag (Some [''src'' \<mapsto> VString src]) children"

text \<open>A text leaf decodes to the zero \<open>ContentNode\<close>.\<close>

definition textLeaf :: ContentNode where
  "textLeaf = ContentNode [] None []"

text \<open>
  The first scenario of the specification, nested one level down and followed by a
  sibling: an image, a text leaf, an image without \<open>src\<close> and a video inside a
  \<open>figure\<close>, then an image.
\<close>

definition scenarioContent :: Content where
  "scenarioContent =
     \<lparr> Title = ''page'',
       Nodes = [ContentNode ''figure'' None
                  [mediaNode ''img'' ''/file/a'' [],
                   textLeaf,
                   ContentNode ''img'' (Some Map.empty) [],
                   mediaNode ''video'' ''https://x.org/v/c?x=1'' []],
                mediaNode ''img'' ''B.PNG#x'' []] \<rparr>"

definition scenarioItems :: "ParsedMedia list" where
  "scenarioItems =
     [\<lparr> Media = \<lparr> URL = ''/file/a'', Filename = ''0_a.jpg'' \<rparr>,
         PTag = ''img'', Alt = [], PTitle = [], NodeIndex = 0 \<rparr>,
      \<lparr> Media = \<lparr> URL = ''https://x.org/v/c?x=1'', Filename = ''1_c.jpg'' \<rparr>,
         PTag = ''video'', Alt = [], PTitle = [], NodeIndex = 1 \<rparr>,
      \<lparr> Media = \<lparr> URL = ''B.PNG#x'', Filename = ''2_B.PNG'' \<rparr>,
         PTag = ''img'', Alt = [], PTitle = [], NodeIndex = 2 \<rparr>]"

text \<open>An image inside a paragraph, followed by an image at the top level.\<close>

definition nestedExample :: "ContentNode list" where
  "nestedExample =
     [ContentNode ''p'' None [mediaNode ''img'' ''/file/a.png'' []],
      mediaNode ''img'' ''/file/b.png'' []]"

text \<open>The second scenario of the specification: the URLs \<open>u1, u2, u1\<close>.\<close>

definition repeatedItems :: "MediaItem list" where
  "repeatedItems =
     [\<lparr> URL = ''u1'', Filename = ''0_u1.jpg'' \<rparr>,
      \<lparr> URL = ''u2'', Filename = ''1_u2.jpg'' \<rparr>,
      \<lparr> URL = ''u1'', Filename = ''2_u1.jpg'' \<rparr>]"

section \<open>The downloader\<close>

text \<open>
  \<open>downloader.Result\<close>. The field \<open>Error\<close> is named \<open>Err\<close> here (\<open>Error\<close> is the
  method above); \<open>Size\<close> is an \<open>int64\<close>.
\<close>

record Result =
  Item :: MediaItem
  Size :: "64 word"
  Err :: "error option"
  Skipped :: bool

text \<open>
  \<open>downloader.Stats\<close>; its field \<open>Skipped\<close> is named \<open>SkippedCount\<close> here. The counters
  are Go \<open>int\<close>s that count the elements of a slice and cannot overflow; \<open>TotalSize\<close>
  is an \<open>int64\<close> sum and wraps. \<open>Duration\<close> is wall-clock time and is left out.
\<close>

record Stats =
  Total :: int
  Successful :: int
  Failed :: int
  SkippedCount :: int
  TotalSize :: "64 word"

text \<open>The \<open>Downloader\<close>, without its HTTP client, whose answers come from the environment.\<close>

record Downloader =
  maxWorkers :: int
  outputDir :: string
  telegraphFileBase :: string
  retries :: int

subsection \<open>The environment of one job\<close>

text \<open>
  One iteration of the loop of \<open>copyWithContext\<close> as the environment decides it:
  whether the context is done at the check before the read, what \<open>src.Read\<close> returns
  (\<open>nr\<close>, \<open>er\<close>) and what \<open>dst.Write\<close> returns (\<open>nw\<close>, \<open>ew\<close>).
\<close>

datatype read_error = NoError | EOF | ReadError error

record read_step =
  doneBeforeRead :: bool
  nr :: int
  er :: read_error
  nw :: int
  ew :: "error option"

record http_response =
  StatusCode :: int
  Body :: "read_step list"

text \<open>
  What the environment does during one call of \<open>downloadFileWithContext\<close> and the
  back-off wait after it: whether the context is done at the check at the top of the
  iteration, the error of \<open>http.NewRequestWithContext\<close>, the result of \<open>client.Do\<close>,
  the error of \<open>os.Create\<close>, the error of \<open>os.Remove\<close> (the source calls it while
  the file is still open, since \<open>file.Close\<close> is deferred, and an operating system may
  refuse that), and whether the context is done before the timer fires.
\<close>

record attempt_env =
  doneAtStart :: bool
  requestError :: "error option"
  response :: "error + http_response"
  createError :: "error option"
  removeError :: "error option"
  doneInWait :: bool

text \<open>
  The environment of a job: \<open>filepath.Join\<close>, the value of \<open>ctx.Err()\<close> once the
  context is done, and the behaviour of the environment in iteration \<open>attempt\<close>.
\<close>

record job_env =
  Join :: "string \<Rightarrow> string \<Rightarrow> string"
  ctxErr :: error
  attempts :: "nat \<Rightarrow> attempt_env"

text \<open>
  The effects of a job: an HTTP request, the creation of a file, a call of \<open>os.Remove\<close>
  on a file (whether or not it removes the file), a back-off wait of so many seconds
  that ran to its end, and a marker for each call of \<open>downloadFileWithContext\<close> with
  the number of the attempt.
\<close>

datatype event = Attempt int | HttpGet string | FileCreate string | FileRemove string | Sleep int

text \<open>The file system (path to size, as \<open>os.Stat\<close> reports it) and the effects so far.\<close>

record world =
  files :: "string \<rightharpoonup> 64 word"
  log :: "event list"

definition emit :: "event \<Rightarrow> world \<Rightarrow> world" where
  "emit ev w = w\<lparr>log := log w @ [ev]\<rparr>"

subsection \<open>One attempt\<close>

definition buildURL :: "Downloader \<Rightarrow> string \<Rightarrow> string" where
  "buildURL d url =
     (if HasPrefix url ''http://'' \<or> HasPrefix url ''https://'' then url
      else telegraphFileBase d @ url)"

definition fileExists :: "world \<Rightarrow> string \<Rightarrow> bool" where
  "fileExists w filename = (files w filename \<noteq> None)"

definition ErrShortWrite :: error where
  "ErrShortWrite = ErrorString ''short write''"

text \<open>
  \<open>copyWithContext\<close>, from the reads that are left and the bytes written so far. A body
  whose reads run out has reached its end: the read after the last one returns
  \<open>(0, io.EOF)\<close>.
\<close>

fun copyWithContext :: "error \<Rightarrow> read_step list \<Rightarrow> 64 word \<Rightarrow> 64 word \<times> error option" where
  "copyWithContext cerr [] written = (written, None)"
| "copyWithContext cerr (r # rs) written =
     (if doneBeforeRead r then (written, Some cerr)
      else
        let (nw', ew') =
              (if nr r > 0 then
                 (if nw r < 0 \<or> nr r < nw r
                  then (0, (if ew r = None then Some (ErrorString ''invalid write result'') else ew r))
                  else (nw r, ew r))
               else (0, None));
            written' = (if nr r > 0 then written + of_int nw' else written)
        in
          if nr r > 0 \<and> ew' \<noteq> None then (written', ew')
          else if nr r > 0 \<and> nr r \<noteq> nw' then (written', Some ErrShortWrite)
          else (case er r of
                  NoError \<Rightarrow> copyWithContext cerr rs written'
                | EOF \<Rightarrow> (written', None)
                | ReadError e \<Rightarrow> (written', Some e)))"

definition failed :: "MediaItem \<Rightarrow> error \<Rightarrow> Result" where
  "failed item e = \<lparr> Item = item, Size = 0, Err = Some e, Skipped = False \<rparr>"

text \<open>
  \<open>downloadFileWithContext\<close>. The message printed on a skip is left out. The source
  discards the result of \<open>os.Remove\<close>: when the environment makes it fail, the file
  stays with the bytes written so far and the function goes on as if it were gone.
\<close>

definition downloadFileWithContext ::
  "Downloader \<Rightarrow> job_env \<Rightarrow> attempt_env \<Rightarrow> MediaItem \<Rightarrow> world \<Rightarrow> Result \<times> world" where
  "downloadFileWithContext d je ae item w =
     (let filePath = Join je (outputDir d) (Filename item) in
      if fileExists w filePath \<and>
         (case files w filePath of None \<Rightarrow> False | Some sz \<Rightarrow> 0 < sint sz)
      then (\<lparr> Item = item, Size = the (files w filePath), Err = None, Skipped = True \<rparr>, w)
      else
        let fullURL = buildURL d (URL item) in
        case requestError ae of
          Some err \<Rightarrow> (failed item (Wrapf ''failed to create request: '' err), w)
        | None \<Rightarrow>
            let w = emit (HttpGet fullURL) w in
            (case response ae of
               Inl err \<Rightarrow> (failed item (Wrapf ''HTTP request failed: '' err), w)
             | Inr resp \<Rightarrow>
                 if StatusCode resp \<noteq> 200
                 then (failed item (ErrorString (''HTTP '' @ showInt (StatusCode resp))), w)
                 else
                   (case createError ae of
                      Some err \<Rightarrow> (failed item (Wrapf ''failed to create file: '' err), w)
                    | None \<Rightarrow>
                        let w = emit (FileCreate filePath) (w\<lparr>files := (files w)(filePath \<mapsto> 0)\<rparr>) in
                        (case copyWithContext (ctxErr je) (Body resp) 0 of
                           (written, Some err) \<Rightarrow>
                             let w = w\<lparr>files := (files w)(filePath \<mapsto> written)\<rparr>;
                                 w = emit (FileRemove filePath)
                                       (case removeError ae of
                                          None \<Rightarrow> w\<lparr>files := (files w)(filePath := None)\<rparr>
                                        | Some ignored \<Rightarrow> w)
                             in (failed item (Wrapf ''failed to copy file: '' err), w)
                         | (written, None) \<Rightarrow>
                             (\<lparr> Item = item, Size = written, Err = None, Skipped = False \<rparr>,
                              w\<lparr>files := (files w)(filePath \<mapsto> written)\<rparr>)))))"

subsection \<open>The retry loop\<close>

text \<open>
  The loop of \<open>downloadFileWithRetryAndContext\<close> from iteration \<open>attempt\<close> on, with the
  errors collected so far; the job starts it at 0. The counter is an unbounded integer:
  the loop of the source differs only for \<open>retries\<close> = \<open>2^63 - 1\<close>, and the wait of
  \<open>attempt + 1\<close> seconds only once it exceeds the range of a \<open>time.Duration\<close>.
\<close>

function downloadLoop ::
  "Downloader \<Rightarrow> job_env \<Rightarrow> MediaItem \<Rightarrow> int \<Rightarrow> error list \<Rightarrow> world \<Rightarrow> Result \<times> world" where
  "downloadLoop d je item attempt errors w =
     (if attempt \<le> retries d then
        let ae = attempts je (nat attempt) in
        if doneAtStart ae then (failed item (ctxErr je), w)
        else
          (case downloadFileWithContext d je ae item (emit (Attempt (attempt + 1)) w) of
             (result, w) \<Rightarrow>
               (case Err result of
                  None \<Rightarrow> (result, w)
                | Some e \<Rightarrow>
                    let errors = AddError errors
                                   (Some (Wrapf (''attempt '' @ showInt (attempt + 1) @ '': '') e)) in
                    if Contains (Error e) ''404'' then (failed item (MultiError errors), w)
                    else if attempt < retries d then
                      (if doneInWait ae then (failed item (ctxErr je), w)
                       else downloadLoop d je item (attempt + 1) errors (emit (Sleep (attempt + 1)) w))
                    else downloadLoop d je item (attempt + 1) errors w))
      else (failed item (MultiError errors), w))"
  by pat_completeness auto
termination
  by (relation "measure (\<lambda>(d, je, item, attempt, errors, w). nat (retries d + 1 - attempt))") auto

declare downloadLoop.simps [simp del]

definition downloadFileWithRetryAndContext ::
  "Downloader \<Rightarrow> job_env \<Rightarrow> MediaItem \<Rightarrow> world \<Rightarrow> Result \<times> world" where
  "downloadFileWithRetryAndContext d je item w = downloadLoop d je item 0 [] w"

subsection \<open>The aggregator\<close>

text \<open>
  The body of the loop \<open>for result := range results\<close> of \<open>DownloadAllWithContext\<close>. The
  state is \<open>stats\<close>, \<open>allResults\<close>, \<open>completed\<close> and the arguments that the progress
  callback, when there is one, has been called with.
\<close>

record aggregator =
  stats :: Stats
  allResults :: "Result list"
  completed :: int
  progress :: "int list"

definition drainResult :: "bool \<Rightarrow> aggregator \<Rightarrow> Result \<Rightarrow> aggregator" where
  "drainResult hasCallback a result =
     (let all' = allResults a @ [result];
          completed' = completed a + 1;
          stats' =
            (if Err result \<noteq> None then (stats a)\<lparr>Failed := Failed (stats a) + 1\<rparr>
             else if Skipped result then (stats a)\<lparr>SkippedCount := SkippedCount (stats a) + 1\<rparr>
             else (stats a)\<lparr>Successful := Successful (stats a) + 1,
                             TotalSize := TotalSize (stats a) + Size result\<rparr>)
      in \<lparr> stats = stats', allResults = all', completed = completed',
           progress = (if hasCallback then progress a @ [completed'] else progress a) \<rparr>)"

definition startAggregator :: "MediaItem list \<Rightarrow> aggregator" where
  "startAggregator items =
     \<lparr> stats = \<lparr> Total = int (length items), Successful = 0, Failed = 0, SkippedCount = 0,
                 TotalSize = 0 \<rparr>,
       allResults = [], completed = 0, progress = [] \<rparr>"

text \<open>The aggregator after it has drained the results \<open>rs\<close>, in the order they arrived.\<close>

definition drain :: "bool \<Rightarrow> MediaItem list \<Rightarrow> Result list \<Rightarrow> aggregator" where
  "drain hasCallback items rs = foldl (drainResult hasCallback) (startAggregator items) rs"

subsection \<open>Notions used to state the properties of the downloader\<close>

text \<open>A result that is neither failed nor skipped.\<close>

definition successful :: "Result \<Rightarrow> bool" where
  "successful r = (Err r = None \<and> \<not> Skipped r)"

text \<open>The destination path of a job.\<close>

definition destination :: "Downloader \<Rightarrow> job_env \<Rightarrow> MediaItem \<Rightarrow> string" where
  "destination d je item = Join je (outputDir d) (Filename item)"

text \<open>A file of size greater than 0 exists at the path.\<close>

definition skippable :: "world \<Rightarrow> string \<Rightarrow> bool" where
  "skippable w path = (case files w path of None \<Rightarrow> False | Some sz \<Rightarrow> 0 < sint sz)"

text \<open>The attempts and the completed waits of a log, and its HTTP requests.\<close>

fun isTiming :: "event \<Rightarrow> bool" where
  "isTiming (Attempt n) = True"
| "isTiming (Sleep n) = True"
| "isTiming ev = False"

definition timeline :: "event list \<Rightarrow> event list" where
  "timeline evs = filter isTiming evs"

fun isRequest :: "event \<Rightarrow> bool" where
  "isRequest (HttpGet url) = True"
| "isRequest ev = False"

definition requests :: "event list \<Rightarrow> event list" where
  "requests evs = filter isRequest evs"

text \<open>
  The error of an attempt when no file is in the way: what \<open>downloadFileWithContext\<close>
  returns on an empty file system.
\<close>

definition attemptError :: "Downloader \<Rightarrow> job_env \<Rightarrow> attempt_env \<Rightarrow> MediaItem \<Rightarrow> error option" where
  "attemptError d je ae item =
     Err (fst (downloadFileWithContext d je ae item \<lparr> files = Map.empty, log = [] \<rparr>))"

text \<open>The attempt is answered with the HTTP status 404.\<close>

definition notFound :: "attempt_env \<Rightarrow> bool" where
  "notFound ae =
     (requestError ae = None \<and> (case response ae of Inl err \<Rightarrow> False | Inr resp \<Rightarrow> StatusCode resp = 404))"

text \<open>The message of the error that iteration \<open>j\<close> records.\<close>

definition attemptFailure :: "Downloader \<Rightarrow> job_env \<Rightarrow> MediaItem \<Rightarrow> int \<Rightarrow> error" where
  "attemptFailure d je item j =
     Wrapf (''attempt '' @ showInt (j + 1) @ '': '')
       (the (attemptError d je (attempts je (nat j)) item))"

text \<open>
  The attempts and waits of a job that stops in iteration \<open>k\<close>: attempt \<open>j\<close> and a wait
  of \<open>j\<close> seconds for \<open>j = 1, ..., k\<close>, then attempt \<open>k + 1\<close>.
\<close>

definition schedule :: "int \<Rightarrow> event list" where
  "schedule k = concat (map (\<lambda>j. [Attempt (j + 1), Sleep (j + 1)]) [0..k - 1]) @ [Attempt (k + 1)]"

subsection \<open>Example jobs\<close>

definition exampleDownloader :: Downloader where
  "exampleDownloader =
     \<lparr> maxWorkers = 1, outputDir = ''out'', telegraphFileBase = ''https://telegra.ph'',
       retries = 2 \<rparr>"

definition exampleItem :: MediaItem where
  "exampleItem = \<lparr> URL = ''/file/a.png'', Filename = ''0_a.png'' \<rparr>"

definition emptyWorld :: world where
  "emptyWorld = \<lparr> files = Map.empty, log = [] \<rparr>"

text \<open>The destination of the example item holds a file of 1024 bytes.\<close>

definition downloadedWorld :: world where
  "downloadedWorld = \<lparr> files = [''out/0_a.png'' \<mapsto> 1024], log = [] \<rparr>"

definition slashJoin :: "string \<Rightarrow> string \<Rightarrow> string" where
  "slashJoin dir name = dir @ ''/'' @ name"

text \<open>An attempt that is answered with the given status and an empty body.\<close>

definition statusAttempt :: "int \<Rightarrow> attempt_env" where
  "statusAttempt code =
     \<lparr> doneAtStart = False, requestError = None,
       response = Inr \<lparr> StatusCode = code, Body = [] \<rparr>,
       createError = None, removeError = None, doneInWait = False \<rparr>"

text \<open>Every attempt is answered with the status 500, and the context is never done.\<close>

definition serverErrorEnv :: job_env where
  "serverErrorEnv = \<lparr> Join = slashJoin, ctxErr = Canceled, attempts = (\<lambda>k. statusAttempt 500) \<rparr>"

text \<open>The first attempt is answered with the status 404.\<close>

definition notFoundEnv :: job_env where
  "notFoundEnv = \<lparr> Join = slashJoin, ctxErr = Canceled, attempts = (\<lambda>k. statusAttempt 404) \<rparr>"

text \<open>
  The status is 500 and the context is cancelled during the first back-off wait, and
  stays so.
\<close>

definition cancelledInWaitEnv :: job_env where
  "cancelledInWaitEnv =
     \<lparr> Join = slashJoin, ctxErr = Canceled,
       attempts = (\<lambda>k. (statusAttempt 500)\<lparr>doneAtStart := (k > 0), doneInWait := True\<rparr>) \<rparr>"

text \<open>The context is cancelled before the job starts.\<close>

definition cancelledEnv :: job_env where
  "cancelledEnv =
     \<lparr> Join = slashJoin, ctxErr = Canceled,
       attempts = (\<lambda>k. (statusAttempt 200)\<lparr>doneAtStart := True, doneInWait := True\<rparr>) \<rparr>"

text \<open>
  The transfer starts (status 200, file created), 100 bytes are copied and the next read
  fails.
\<close>

definition brokenBody :: "read_step list" where
  "brokenBody =
     [\<lparr> doneBeforeRead = False, nr = 100, er = NoError, nw = 100, ew = None \<rparr>,
      \<lparr> doneBeforeRead = False, nr = 0, er = ReadError (ErrorString ''unexpected EOF''), nw = 0,
        ew = None \<rparr>]"

definition brokenCopyAttempt :: attempt_env where
  "brokenCopyAttempt =
     \<lparr> doneAtStart = False, requestError = None,
       response = Inr \<lparr> StatusCode = 200, Body = brokenBody \<rparr>,
       createError = None, removeError = None, doneInWait = False \<rparr>"

definition brokenCopyEnv :: job_env where
  "brokenCopyEnv = \<lparr> Join = slashJoin, ctxErr = Canceled, attempts = (\<lambda>k. brokenCopyAttempt) \<rparr>"

text \<open>The result and the world after that attempt on an empty file system.\<close>

definition brokenCopyResult :: Result where
  "brokenCopyResult =
     failed exampleItem (Wrapf ''failed to copy file: '' (ErrorString ''unexpected EOF''))"

definition brokenCopyWorld :: world where
  "brokenCopyWorld =
     \<lparr> files = Map.empty,
       log = [HttpGet ''https://telegra.ph/file/a.png'', FileCreate ''out/0_a.png'',
              FileRemove ''out/0_a.png''] \<rparr>"

text \<open>
  The same attempt when \<open>os.Remove\<close> is refused because the file is still open, and
  the world after it on an empty file system: the file stays with its 100 bytes.
\<close>

definition stuckCopyAttempt :: attempt_env where
  "stuckCopyAttempt =
     brokenCopyAttempt\<lparr>removeError :=
       Some (ErrorString ''remove out/0_a.png: the file is being used by another process'')\<rparr>"

definition stuckCopyEnv :: job_env where
  "stuckCopyEnv = \<lparr> Join = slashJoin, ctxErr = Canceled, attempts = (\<lambda>k. stuckCopyAttempt) \<rparr>"

definition stuckCopyWorld :: world where
  "stuckCopyWorld =
     \<lparr> files = [''out/0_a.png'' \<mapsto> 100],
       log = [HttpGet ''https://telegra.ph/file/a.png'', FileCreate ''out/0_a.png'',
              FileRemove ''out/0_a.png''] \<rparr>"

text \<open>
  An item whose URL contains the digits 404, and an environment in which every request
  for it fails with a refused connection.
\<close>

definition item404 :: MediaItem where
  "item404 = \<lparr> URL = ''/file/x404.png'', Filename = ''7_x404.png'' \<rparr>"

definition refusedError :: error where
  "refusedError =
     ErrorString (''Get '' @ [CHR 0x22] @ ''https://telegra.ph/file/x404.png'' @ [CHR 0x22] @
                  '': dial tcp: connect: connection refused'')"

definition refusedEnv :: job_env where
  "refusedEnv =
     \<lparr> Join = slashJoin, ctxErr = Canceled,
       attempts = (\<lambda>k. (statusAttempt 200)\<lparr>response := Inl refusedError\<rparr>) \<rparr>"

section \<open>The worker pool\<close>

text \<open>
  \<open>DownloadAllWithContext\<close> starts \<open>maxWorkers\<close> worker goroutines, a sender goroutine
  and a goroutine that closes \<open>results\<close> once every worker has returned, and then
  drains \<open>results\<close>. The goroutines are modelled by a step relation on the state they
  share; a step is one communication of one goroutine, and every interleaving of the
  steps is a run. A \<open>select\<close> with several ready cases may take any of them.

  A worker is at its outer \<open>select\<close> (\<open>Receiving\<close>), at its inner \<open>select\<close> with the
  result of its job (\<open>Sending\<close>), or has returned (\<open>Exited\<close>).
\<close>

datatype worker = Receiving | Sending Result | Exited

text \<open>
  The context, the items that the sender has not sent yet, whether \<open>jobs\<close> is closed,
  the buffers of the channels \<open>jobs\<close> and \<open>results\<close> (both have room for every item, so
  a send never blocks), the workers, and the state of the draining loop.
\<close>

record pool =
  ctxDone :: bool
  unsent :: "MediaItem list"
  jobsClosed :: bool
  jobs :: "MediaItem list"
  workers :: "worker list"
  results :: "Result list"
  agg :: aggregator

text \<open>
  The state when the goroutines have been started. A context that is already done at
  that time is the run that begins with the step \<open>Cancel\<close>.
\<close>

definition initPool :: "Downloader \<Rightarrow> MediaItem list \<Rightarrow> pool" where
  "initPool d items =
     \<lparr> ctxDone = False, unsent = items, jobsClosed = False, jobs = [],
       workers = replicate (nat (maxWorkers d)) Receiving, results = [],
       agg = startAggregator items \<rparr>"

text \<open>
  The steps. \<open>Cancel\<close>: the context becomes done. \<open>Send\<close>, \<open>SenderCancelled\<close>,
  \<open>SenderDone\<close>: the sender sends the next item, returns because the context is done,
  or returns at the end of the items; returning closes \<open>jobs\<close>. \<open>Take\<close>: a worker
  receives an item and runs \<open>downloadFileWithRetryAndContext\<close> on it, which gives some
  result for that item. \<open>Closed\<close>, \<open>Cancelled\<close>: a worker returns because \<open>jobs\<close> is
  closed and empty, or because the context is done. \<open>Deliver\<close>, \<open>Dropped\<close>: a worker
  sends its result, or returns with it because the context is done. \<open>Drain\<close>: the
  loop over \<open>results\<close> takes the next result.
\<close>

inductive poolStep :: "bool \<Rightarrow> pool \<Rightarrow> pool \<Rightarrow> bool" for hasCallback :: bool where
  Cancel: "poolStep hasCallback s (s\<lparr>ctxDone := True\<rparr>)"
| Send: "\<not> jobsClosed s \<Longrightarrow> unsent s = item # rest \<Longrightarrow>
     poolStep hasCallback s (s\<lparr>unsent := rest, jobs := jobs s @ [item]\<rparr>)"
| SenderCancelled: "\<not> jobsClosed s \<Longrightarrow> unsent s \<noteq> [] \<Longrightarrow> ctxDone s \<Longrightarrow>
     poolStep hasCallback s (s\<lparr>jobsClosed := True\<rparr>)"
| SenderDone: "\<not> jobsClosed s \<Longrightarrow> unsent s = [] \<Longrightarrow>
     poolStep hasCallback s (s\<lparr>jobsClosed := True\<rparr>)"
| Take: "i < length (workers s) \<Longrightarrow> workers s ! i = Receiving \<Longrightarrow> jobs s = item # rest \<Longrightarrow>
     Item r = item \<Longrightarrow>
     poolStep hasCallback s (s\<lparr>jobs := rest, workers := (workers s)[i := Sending r]\<rparr>)"
| Closed: "i < length (workers s) \<Longrightarrow> workers s ! i = Receiving \<Longrightarrow> jobs s = [] \<Longrightarrow>
     jobsClosed s \<Longrightarrow>
     poolStep hasCallback s (s\<lparr>workers := (workers s)[i := Exited]\<rparr>)"
| Cancelled: "i < length (workers s) \<Longrightarrow> workers s ! i = Receiving \<Longrightarrow> ctxDone s \<Longrightarrow>
     poolStep hasCallback s (s\<lparr>workers := (workers s)[i := Exited]\<rparr>)"
| Deliver: "i < length (workers s) \<Longrightarrow> workers s ! i = Sending r \<Longrightarrow>
     poolStep hasCallback s (s\<lparr>results := results s @ [r], workers := (workers s)[i := Receiving]\<rparr>)"
| Dropped: "i < length (workers s) \<Longrightarrow> workers s ! i = Sending r \<Longrightarrow> ctxDone s \<Longrightarrow>
     poolStep hasCallback s (s\<lparr>workers := (workers s)[i := Exited]\<rparr>)"
| Drain: "results s = r # rest \<Longrightarrow>
     poolStep hasCallback s (s\<lparr>results := rest, agg := drainResult hasCallback (agg s) r\<rparr>)"

text \<open>
  The loop over \<open>results\<close> ends when the channel is closed and empty, that is when
  every worker has returned and the buffer is empty; \<open>DownloadAllWithContext\<close> then
  returns \<open>stats\<close> and \<open>allResults\<close>.
\<close>

definition finished :: "pool \<Rightarrow> bool" where
  "finished s = ((\<forall>w \<in> set (workers s). w = Exited) \<and> results s = [])"

definition returned :: "pool \<Rightarrow> Stats \<times> Result list" where
  "returned s = (stats (agg s), allResults (agg s))"

text \<open>The items of the results that workers hold.\<close>

fun holding :: "worker \<Rightarrow> MediaItem multiset" where
  "holding (Sending r) = {#Item r#}"
| "holding w = {#}"

fun held :: "worker list \<Rightarrow> MediaItem multiset" where
  "held [] = {#}"
| "held (w # ws) = holding w + held ws"

text \<open>The items that are somewhere in the pool: not sent, queued, held, queued as results, or drained.\<close>

definition inPool :: "pool \<Rightarrow> MediaItem multiset" where
  "inPool s =
     mset (unsent s) + mset (jobs s) + held (workers s) + mset (map Item (results s))
       + mset (map Item (allResults (agg s)))"

text \<open>
  What holds in every state of a run on \<open>items\<close>: no item occurs more often in the pool
  than in \<open>items\<close> and the aggregator has drained its list of results; and as long as
  the context is not done, no item is lost, a closed \<open>jobs\<close> means that every item was
  sent, and a worker has returned only after \<open>jobs\<close> was closed and emptied.
\<close>

definition poolInvariant :: "bool \<Rightarrow> Downloader \<Rightarrow> MediaItem list \<Rightarrow> pool \<Rightarrow> bool" where
  "poolInvariant hasCallback d items s =
     (length (workers s) = nat (maxWorkers d) \<and>
      agg s = drain hasCallback items (allResults (agg s)) \<and>
      inPool s \<subseteq># mset items \<and>
      (\<not> ctxDone s \<longrightarrow>
         inPool s = mset items \<and>
         (jobsClosed s \<longrightarrow> unsent s = []) \<and>
         (Exited \<in> set (workers s) \<longrightarrow> jobsClosed s \<and> jobs s = [])))"

text \<open>
  The end of a run of one worker on the example item: the item is sent and \<open>jobs\<close> is
  closed, the context is cancelled, the worker receives the item, its download is
  aborted, and at its inner \<open>select\<close> the worker returns instead of sending the result.
\<close>

definition cancelledPool :: pool where
  "cancelledPool =
     \<lparr> ctxDone = True, unsent = [], jobsClosed = True, jobs = [],
       workers = [Exited], results = [], agg = startAggregator [exampleItem] \<rparr>"

text \<open>A successful result for the example item, and the end of a run that delivers it.\<close>

definition exampleResult :: Result where
  "exampleResult = \<lparr> Item = exampleItem, Size = 1024, Err = None, Skipped = False \<rparr>"

definition completedPool :: pool where
  "completedPool =
     \<lparr> ctxDone = False, unsent = [], jobsClosed = True, jobs = [],
       workers = [Exited], results = [],
       agg = drainResult False (startAggregator [exampleItem]) exampleResult \<rparr>"

text \<open>The number of workers that have not returned.\<close>

definition running :: "worker list \<Rightarrow> nat" where
  "running ws = length (filter (\<lambda>w. w \<noteq> Exited) ws)"


section \<open>Properties of the parser\<close>
lemma scanNodes_append:
  "scanNodes p i (xs @ ys) =
     (case scanNodes p i xs of None \<Rightarrow> None
      | Some a \<Rightarrow>
          (case scanNodes p (i + length a) ys of None \<Rightarrow> None | Some b \<Rightarrow> Some (a @ b)))"
proof (induction xs arbitrary: i)
  case Nil
  show ?case by (cases "scanNodes p i ys") simp_all
next
  case (Cons x xs)
  show ?case
    by (auto simp: Cons.IH split: option.splits)
qed

lemma feed_append: "feed yield (xs @ ys) c = feed yield ys (feed yield xs c)"
  by (simp add: feed_def)

lemma feed_Cons: "feed yield (x # xs) c = feed yield xs (fst (yield c x))"
  by (simp add: feed_def)

lemma feed_Nil: "feed yield [] c = c"
  by (simp add: feed_def)

lemma offerNode_scan:
  assumes "alwaysMore yield"
  shows "offerNode p yield node (i, c) =
     (case scanNodes p i [node] of None \<Rightarrow> Panicked
      | Some items \<Rightarrow> Continue (i + length items, feed yield items c))"
  using assms
  by (auto simp: offerNode_def alwaysMore_def feed_def split: option.splits prod.splits)
     (metis snd_conv)

lemma walk_scan:
  assumes "alwaysMore yield"
  shows "walkNodesForMedia p yield nodes (i, c) =
     (case scanNodes p i (preorder nodes) of None \<Rightarrow> None
      | Some items \<Rightarrow> Some (i + length items, feed yield items c))"
  using assms
proof (induction p yield nodes "(i, c)" arbitrary: i c rule: walkNodesForMedia.induct)
  case (1 p yield s)
  then show ?case by (simp add: feed_def)
next
  case (2 p yield tag attrs children nodes)
  let ?n = "ContentNode tag attrs children"
  note off = offerNode_scan [OF 2(3), of p ?n i c]
  have pre: "preorder (?n # nodes) = [?n] @ preorder children @ preorder nodes" by simp
  show ?case
  proof (cases "scanNodes p i [?n]")
    case None
    then show ?thesis
      unfolding pre scanNodes_append using off by simp
  next
    case (Some a)
    let ?s' = "(i + length a, feed yield a c)"
    from off Some have cont: "offerNode p yield ?n (i, c) = Continue ?s'" by simp
    have ch: "(if length children > 0 then walkNodesForMedia p yield children ?s' else Some ?s') =
        (case scanNodes p (i + length a) (preorder children) of None \<Rightarrow> None
         | Some items \<Rightarrow> Some (i + length a + length items, feed yield items (feed yield a c)))"
    proof (cases "length children > 0")
      case True
      then show ?thesis using 2(1) [OF cont True 2(3)] by simp
    next
      case False
      then show ?thesis by (simp add: feed_def)
    qed
    show ?thesis
    proof (cases "scanNodes p (i + length a) (preorder children)")
      case None
      then show ?thesis
        unfolding pre scanNodes_append walkNodesForMedia.simps cont using ch Some by simp
    next
      case (Some b)
      let ?s'' = "(i + length a + length b, feed yield b (feed yield a c))"
      from ch Some
      have ch': "(if length children > 0 then walkNodesForMedia p yield children ?s' else Some ?s') = Some ?s''"
        by simp
      note rest = 2(2) [OF cont ch' 2(3)]
      show ?thesis
        unfolding pre scanNodes_append walkNodesForMedia.simps cont step.case ch' option.case rest
        using \<open>scanNodes p i [?n] = Some a\<close> Some
        by (simp add: feed_append add.assoc split: option.splits)
    qed
  qed
qed


lemma showNat_prefix_free: "showNat n \<noteq> []"
  by (subst showNat.simps) simp

lemma generateFilename_prefix:
  "generateFilename p url i = Some f \<Longrightarrow> \<exists>base. f = showNat i @ ''_'' @ base"
  by (auto simp: generateFilename_def Let_def split: option.splits if_splits)

lemma parseMediaNode_item:
  assumes "parseMediaNode p node i = Some (Some item)"
  shows "NodeIndex item = i"
    and "generateFilename p (URL (Media item)) i = Some (Filename (Media item))"
    and "URL (Media item) \<noteq> []"
    and "isMediaTag p (Tag node) \<Longrightarrow> acceptedSrc p node = Some (URL (Media item))"
  using assms
  by (auto simp: parseMediaNode_def acceptedSrc_def isMediaTag_def
           split: option.splits attr_value.splits if_splits)

lemma parseMediaNode_rejected:
  "parseMediaNode p node i = Some None \<Longrightarrow> acceptedSrc p node = None"
  by (auto simp: parseMediaNode_def acceptedSrc_def
           split: option.splits attr_value.splits if_splits)

lemma acceptedSrc_not_candidate: "\<not> isMediaTag p (Tag node) \<Longrightarrow> acceptedSrc p node = None"
  by (simp add: acceptedSrc_def isMediaTag_def)

lemma scanNodes_index:
  "scanNodes p i nodes = Some items \<Longrightarrow> map NodeIndex items = [i..<i + length items]"
proof (induction nodes arbitrary: i items)
  case Nil
  then show ?case by simp
next
  case (Cons node nodes)
  show ?case
  proof (cases "isMediaTag p (Tag node)")
    case False
    with Cons show ?thesis by simp
  next
    case True
    show ?thesis
    proof (cases "parseMediaNode p node i")
      case None
      with True Cons.prems show ?thesis by simp
    next
      case (Some r)
      show ?thesis
      proof (cases r)
        case None
        with Some True Cons show ?thesis by simp
      next
        case (Some item)
        with \<open>parseMediaNode p node i = Some r\<close> True Cons.prems
        obtain rest where rest: "scanNodes p (i + 1) nodes = Some rest" and items: "items = item # rest"
          by auto
        from Cons.IH [OF rest] have "map NodeIndex rest = [i + 1..<i + 1 + length rest]" .
        moreover have "NodeIndex item = i"
          using parseMediaNode_item(1) \<open>parseMediaNode p node i = Some r\<close> Some by blast
        ultimately have a: "map NodeIndex items = i # [i + 1..<i + 1 + length rest]"
          by (simp add: items del: upt_Suc)
        have b: "[i..<i + length items] = i # [i + 1..<i + 1 + length rest]"
          by (simp add: items upt_conv_Cons del: upt_Suc)
        show ?thesis unfolding a b ..
      qed
    qed
  qed
qed

lemma scanNodes_filename:
  "scanNodes p i nodes = Some items \<Longrightarrow> k < length items \<Longrightarrow>
     generateFilename p (URL (Media (items ! k))) (i + k) = Some (Filename (Media (items ! k)))"
proof (induction nodes arbitrary: i items k)
  case Nil
  then show ?case by simp
next
  case (Cons node nodes)
  show ?case
  proof (cases "isMediaTag p (Tag node)")
    case False
    with Cons show ?thesis by simp
  next
    case True
    show ?thesis
    proof (cases "parseMediaNode p node i")
      case None
      with True Cons.prems show ?thesis by simp
    next
      case (Some r)
      show ?thesis
      proof (cases r)
        case None
        with Some True Cons show ?thesis by simp
      next
        case (Some item)
        with \<open>parseMediaNode p node i = Some r\<close> True Cons.prems
        obtain rest where rest: "scanNodes p (i + 1) nodes = Some rest" and items: "items = item # rest"
          by auto
        have here: "generateFilename p (URL (Media item)) i = Some (Filename (Media item))"
          using parseMediaNode_item(2) \<open>parseMediaNode p node i = Some r\<close> Some by blast
        show ?thesis
        proof (cases k)
          case 0
          with here items show ?thesis by simp
        next
          case (Suc j)
          with Cons.prems(2) items have "j < length rest" by simp
          from Cons.IH [OF rest this] Suc items show ?thesis by simp
        qed
      qed
    qed
  qed
qed

lemma scanNodes_urls:
  "scanNodes p i nodes = Some items \<Longrightarrow>
     map (\<lambda>item. URL (Media item)) items = List.map_filter (acceptedSrc p) nodes"
proof (induction nodes arbitrary: i items)
  case Nil
  then show ?case by (simp add: List.map_filter_simps)
next
  case (Cons node nodes)
  show ?case
  proof (cases "isMediaTag p (Tag node)")
    case False
    with Cons show ?thesis by (simp add: List.map_filter_simps acceptedSrc_not_candidate)
  next
    case True
    show ?thesis
    proof (cases "parseMediaNode p node i")
      case None
      with True Cons.prems show ?thesis by simp
    next
      case (Some r)
      show ?thesis
      proof (cases r)
        case None
        with Some True Cons show ?thesis
          by (simp add: List.map_filter_simps parseMediaNode_rejected)
      next
        case (Some item)
        with \<open>parseMediaNode p node i = Some r\<close> True Cons.prems
        obtain rest where rest: "scanNodes p (i + 1) nodes = Some rest" and items: "items = item # rest"
          by auto
        have "acceptedSrc p node = Some (URL (Media item))"
          using parseMediaNode_item(4) \<open>parseMediaNode p node i = Some r\<close> Some True by blast
        with Cons.IH [OF rest] items show ?thesis
          by (simp add: List.map_filter_simps)
      qed
    qed
  qed
qed

lemma scanNodes_nonempty_url:
  "scanNodes p i nodes = Some items \<Longrightarrow> item \<in> set items \<Longrightarrow> URL (Media item) \<noteq> []"
proof (induction nodes arbitrary: i items)
  case Nil
  then show ?case by simp
next
  case (Cons node nodes)
  then show ?case
    by (auto split: if_splits option.splits) (use parseMediaNode_item(3) in blast)+
qed

lemma guessExtension_total:
  "\<forall>ext \<in> set exts. ext \<noteq> [] \<Longrightarrow> guessExtension exts filename lowerURL \<noteq> None"
  by (induction exts) auto

lemma generateFilename_total:
  assumes "extensionsUsable p"
  shows "generateFilename p url i \<noteq> None"
proof -
  have "guessExtension (fileExtensions p) filename lowerURL \<noteq> None" for filename lowerURL
    using assms by (intro guessExtension_total) (simp add: extensionsUsable_def)
  then have never: "(guessExtension (fileExtensions p) filename lowerURL = None) = False"
    for filename lowerURL by simp
  show ?thesis
    by (simp add: never generateFilename_def addExtensionFromURL_def Let_def split: option.splits)
qed

lemma parseMediaNode_total:
  assumes "extensionsUsable p"
  shows "parseMediaNode p node i \<noteq> None"
proof -
  have "generateFilename p url i \<noteq> None" for url
    using assms by (rule generateFilename_total)
  then have never: "(generateFilename p url i = None) = False" for url by simp
  show ?thesis
    by (simp add: never parseMediaNode_def split: option.splits attr_value.splits)
qed

lemma scanNodes_total: "extensionsUsable p \<Longrightarrow> scanNodes p i nodes \<noteq> None"
proof (induction nodes arbitrary: i)
  case Nil
  show ?case by simp
next
  case (Cons node nodes)
  from Cons.IH [OF Cons.prems] parseMediaNode_total [OF Cons.prems, of node i]
  show ?case by (auto split: option.splits)
qed

lemma alwaysMore_appendDetailed: "alwaysMore appendDetailed"
  by (simp add: alwaysMore_def appendDetailed_def)

lemma alwaysMore_appendMedia: "alwaysMore appendMedia"
  by (simp add: alwaysMore_def appendMedia_def)

lemma alwaysMore_statsBody: "alwaysMore statsBody"
  by (simp add: alwaysMore_def statsBody_def Let_def split: prod.splits)

lemma feed_appendDetailed: "feed appendDetailed items acc = acc @ items"
  by (induction items arbitrary: acc) (simp_all add: feed_Nil feed_Cons appendDetailed_def)

lemma feed_appendMedia: "feed appendMedia items acc = acc @ map Media items"
  by (induction items arbitrary: acc) (simp_all add: feed_Nil feed_Cons appendMedia_def)

lemma feed_statsBody:
  "\<forall>item \<in> set items. URL (Media item) \<noteq> [] \<Longrightarrow>
   \<exists>pst' urlSet'. feed statsBody items (pst, acc, urlSet) = (pst', acc @ map Media items, urlSet')
      \<and> InvalidMedia pst' = InvalidMedia pst \<and> Errors pst' = Errors pst"
proof (induction items arbitrary: pst acc urlSet)
  case Nil
  show ?case by (simp add: feed_Nil)
next
  case (Cons item items)
  then have url: "URL (Media item) \<noteq> []" and rest: "\<forall>item \<in> set items. URL (Media item) \<noteq> []"
    by simp_all
  obtain pst1 urlSet1 where
    one: "fst (statsBody (pst, acc, urlSet) item) = (pst1, acc @ [Media item], urlSet1)"
    and keep: "InvalidMedia pst1 = InvalidMedia pst" "Errors pst1 = Errors pst"
    using url by (simp add: statsBody_def Let_def)
  from Cons.IH [OF rest, of pst1 "acc @ [Media item]" urlSet1] keep one
  show ?case by (auto simp: feed_Cons)
qed

lemma iterate_scan:
  "alwaysMore yield \<Longrightarrow>
   iterateMediaItems p nodes yield c = map_option (\<lambda>items. feed yield items c) (scanNodes p 0 (preorder nodes))"
  by (simp add: iterateMediaItems_def walk_scan split: option.splits)

lemma ExtractMediaDetailed_scan:
  "ExtractMediaDetailed p content = scanNodes p 0 (preorder (Nodes content))"
  by (cases "scanNodes p 0 (preorder (Nodes content))")
     (simp_all add: ExtractMediaDetailed_def iterate_scan alwaysMore_appendDetailed feed_appendDetailed)

lemma ExtractMedia_scan:
  "ExtractMedia p content = map_option (map Media) (scanNodes p 0 (preorder (Nodes content)))"
  by (cases "scanNodes p 0 (preorder (Nodes content))")
     (simp_all add: ExtractMedia_def iterate_scan alwaysMore_appendMedia feed_appendMedia)

lemma deleteSeen_snoc:
  "deleteSeen seen (items @ [item]) =
     deleteSeen seen items @
       (if seen (URL item) \<or> URL item \<in> URL ` set items then [] else [item])"
  by (induction items arbitrary: seen) auto

lemma firstOccurrence_snoc_old:
  "i < length items \<Longrightarrow> firstOccurrence (items @ [item]) i = firstOccurrence items i"
  by (simp add: firstOccurrence_def nth_append)

lemma firstOccurrence_snoc_new:
  "firstOccurrence (items @ [item]) (length items) = (URL item \<notin> URL ` set items)"
  by (simp add: firstOccurrence_def)

lemma deleteSeen_positions:
  "deleteSeen (\<lambda>url. False) items =
     map ((!) items) (filter (firstOccurrence items) [0..<length items])"
proof (induction items rule: rev_induct)
  case Nil
  show ?case by simp
next
  case (snoc item items)
  have old: "map ((!) (items @ [item])) (filter (firstOccurrence (items @ [item])) [0..<length items])
      = map ((!) items) (filter (firstOccurrence items) [0..<length items])"
  proof -
    have "filter (firstOccurrence (items @ [item])) [0..<length items]
        = filter (firstOccurrence items) [0..<length items]"
      by (rule filter_cong) (simp_all add: firstOccurrence_snoc_old)
    moreover have "map ((!) (items @ [item])) (filter (firstOccurrence items) [0..<length items])
        = map ((!) items) (filter (firstOccurrence items) [0..<length items])"
      by (rule map_cong) (simp_all add: nth_append)
    ultimately show ?thesis by simp
  qed
  show ?case
    unfolding deleteSeen_snoc snoc.IH
    using old by (simp add: firstOccurrence_snoc_new)
qed

subsection \<open>The claims about the parser\<close>

lemma scenario_detailed: "ExtractMediaDetailed DefaultConfig scenarioContent = Some scenarioItems"
  by code_simp

lemma scenario_usable: "extensionsUsable DefaultConfig"
  by (simp add: extensionsUsable_def DefaultConfig_def)

text \<open>
  C2. Dense indices. The extraction either panics (an empty configured extension; never
  when every extension is non-empty) or returns items whose indices are exactly
  \<open>0, 1, ..., n - 1\<close> in emission order. The filename of the item at position \<open>k\<close> is
  the one \<open>generateFilename\<close> builds for index \<open>k\<close>, so it starts with the decimal
  digits of \<open>k\<close> and an underscore, and the plain extraction returns the same items.
  The counter moves only when an item is yielded, so rejected candidates and other nodes
  take no index.
\<close>
theorem dense_media_indices:
  "(extensionsUsable p \<longrightarrow> ExtractMediaDetailed p content \<noteq> None) \<and>
   (\<forall>items. ExtractMediaDetailed p content = Some items \<longrightarrow>
      map NodeIndex items = [0..<length items] \<and>
      ExtractMedia p content = Some (map Media items) \<and>
      (\<forall>k < length items.
         generateFilename p (URL (Media (items ! k))) k = Some (Filename (Media (items ! k))) \<and>
         (\<exists>base. Filename (Media (items ! k)) = showNat k @ ''_'' @ base)))"
proof (intro conjI allI impI)
  assume "extensionsUsable p"
  then show "ExtractMediaDetailed p content \<noteq> None"
    unfolding ExtractMediaDetailed_scan by (rule scanNodes_total)
next
  fix items
  assume "ExtractMediaDetailed p content = Some items"
  then have scan: "scanNodes p 0 (preorder (Nodes content)) = Some items"
    by (simp add: ExtractMediaDetailed_scan)
  from scanNodes_index [OF scan] show "map NodeIndex items = [0..<length items]" by simp
  from scan show "ExtractMedia p content = Some (map Media items)"
    by (simp add: ExtractMedia_scan)
  fix k
  assume "k < length items"
  from scanNodes_filename [OF scan this]
  show name: "generateFilename p (URL (Media (items ! k))) k = Some (Filename (Media (items ! k)))"
    by simp
  from generateFilename_prefix [OF name]
  show "\<exists>base. Filename (Media (items ! k)) = showNat k @ ''_'' @ base" .
qed

text \<open>The scenario tree with the default configuration: three items, indices 0, 1, 2.\<close>
theorem dense_media_indices_witness:
  "extensionsUsable DefaultConfig \<and>
   ExtractMediaDetailed DefaultConfig scenarioContent = Some scenarioItems \<and>
   map NodeIndex scenarioItems = [0..<length scenarioItems] \<and>
   ExtractMedia DefaultConfig scenarioContent = Some (map Media scenarioItems) \<and>
   generateFilename DefaultConfig (URL (Media (scenarioItems ! 1))) 1
     = Some (Filename (Media (scenarioItems ! 1)))"
proof -
  have len: "(1::nat) < length scenarioItems" by (simp add: scenarioItems_def)
  from dense_media_indices [of DefaultConfig scenarioContent] scenario_detailed len
  show ?thesis using scenario_usable by blast
qed

text \<open>
  C3. Early termination. The claim is that after the consumer declines, no further node
  is visited and \<open>yield\<close> is not called again. The walker leaves only the innermost
  call: on \<open>nestedExample\<close> a consumer that stops after its first item is called a
  second time, for the top-level image that follows the paragraph, and with the index 0
  again since the counter was not incremented.
\<close>
theorem walker_continues_after_stop:
  "iterateMediaItems DefaultConfig nestedExample (stopAfter 1) [] =
     Some [\<lparr> Media = \<lparr> URL = ''/file/a.png'', Filename = ''0_a.png'' \<rparr>,
              PTag = ''img'', Alt = [], PTitle = [], NodeIndex = 0 \<rparr>,
           \<lparr> Media = \<lparr> URL = ''/file/b.png'', Filename = ''0_b.png'' \<rparr>,
              PTag = ''img'', Alt = [], PTitle = [], NodeIndex = 0 \<rparr>]"
  by code_simp

text \<open>
  C6. Document order. The extraction is the flat scan of the pre-order list of the tree
  (an element before its children, children before the following siblings, a subtree
  before the next sibling), and the URLs it returns are the accepted \<open>src\<close> values of
  that list in that order.
\<close>
theorem extraction_in_document_order:
  "ExtractMediaDetailed p content = scanNodes p 0 (preorder (Nodes content)) \<and>
   (\<forall>items. ExtractMedia p content = Some items \<longrightarrow>
      map URL items = List.map_filter (acceptedSrc p) (preorder (Nodes content)))"
proof (intro conjI allI impI)
  show "ExtractMediaDetailed p content = scanNodes p 0 (preorder (Nodes content))"
    by (rule ExtractMediaDetailed_scan)
next
  fix items
  assume "ExtractMedia p content = Some items"
  then obtain detailed where scan: "scanNodes p 0 (preorder (Nodes content)) = Some detailed"
    and items: "items = map Media detailed"
    by (auto simp: ExtractMedia_scan)
  from scanNodes_urls [OF scan] items
  show "map URL items = List.map_filter (acceptedSrc p) (preorder (Nodes content))"
    by (simp add: comp_def)
qed

lemma scenario_media: "ExtractMedia DefaultConfig scenarioContent = Some (map Media scenarioItems)"
  by code_simp

text \<open>The scenario tree: the nested image and video come before the top-level image.\<close>
theorem extraction_in_document_order_witness:
  "ExtractMedia DefaultConfig scenarioContent = Some (map Media scenarioItems) \<and>
   map URL (map Media scenarioItems) = [''/file/a'', ''https://x.org/v/c?x=1'', ''B.PNG#x''] \<and>
   List.map_filter (acceptedSrc DefaultConfig) (preorder (Nodes scenarioContent))
     = [''/file/a'', ''https://x.org/v/c?x=1'', ''B.PNG#x'']"
proof -
  have urls: "map URL (map Media scenarioItems) = [''/file/a'', ''https://x.org/v/c?x=1'', ''B.PNG#x'']"
    by (simp add: scenarioItems_def)
  from extraction_in_document_order [of DefaultConfig scenarioContent] scenario_media
  have "map URL (map Media scenarioItems)
      = List.map_filter (acceptedSrc DefaultConfig) (preorder (Nodes scenarioContent))"
    by blast
  with urls scenario_media show ?thesis by simp
qed

text \<open>
  C10. \<open>ExtractWithStats\<close> returns the same list of media items as \<open>ExtractMedia\<close>
  (and panics exactly when it does). Its branch for an empty URL is never taken: no
  returned item has an empty URL, \<open>InvalidMedia\<close> stays 0 and no error is recorded.
\<close>
theorem ExtractWithStats_same_items:
  "map_option fst (ExtractWithStats p content) = ExtractMedia p content \<and>
   (\<forall>items pst. ExtractWithStats p content = Some (items, pst) \<longrightarrow>
      InvalidMedia pst = 0 \<and> Errors pst = [] \<and> (\<forall>item \<in> set items. URL item \<noteq> []))"
proof (cases "scanNodes p 0 (preorder (Nodes content))")
  case None
  then show ?thesis
    by (simp add: ExtractWithStats_def ExtractMedia_scan iterate_scan alwaysMore_statsBody)
next
  case (Some detailed)
  then have "\<forall>item \<in> set detailed. URL (Media item) \<noteq> []"
    using scanNodes_nonempty_url by blast
  from feed_statsBody [OF this, of emptyParserStats "[]" Map.empty]
  obtain pst' urlSet' where
    fed: "feed statsBody detailed (emptyParserStats, [], Map.empty) = (pst', map Media detailed, urlSet')"
    and keep: "InvalidMedia pst' = 0" "Errors pst' = []"
    by (auto simp: emptyParserStats_def)
  have "ExtractWithStats p content =
      Some (map Media detailed,
            pst'\<lparr>TotalNodes := countTotalNodes (Nodes content), UniqueURLs := card (dom urlSet')\<rparr>)"
    by (simp add: ExtractWithStats_def iterate_scan alwaysMore_statsBody Some fed)
  moreover have "ExtractMedia p content = Some (map Media detailed)"
    by (simp add: ExtractMedia_scan Some)
  ultimately show ?thesis
    using keep \<open>\<forall>item \<in> set detailed. URL (Media item) \<noteq> []\<close> by auto
qed

text \<open>The scenario tree: both entry points return the three items.\<close>
theorem ExtractWithStats_same_items_witness:
  "map_option fst (ExtractWithStats DefaultConfig scenarioContent) = Some (map Media scenarioItems) \<and>
   (\<exists>pst. ExtractWithStats DefaultConfig scenarioContent = Some (map Media scenarioItems, pst) \<and>
      InvalidMedia pst = 0 \<and> Errors pst = [])"
proof -
  from ExtractWithStats_same_items [of DefaultConfig scenarioContent] scenario_media
  have same: "map_option fst (ExtractWithStats DefaultConfig scenarioContent) = Some (map Media scenarioItems)"
    and rest: "\<forall>items pst. ExtractWithStats DefaultConfig scenarioContent = Some (items, pst) \<longrightarrow>
      InvalidMedia pst = 0 \<and> Errors pst = []"
    by simp_all
  from same obtain pst where
    "ExtractWithStats DefaultConfig scenarioContent = Some (map Media scenarioItems, pst)"
    by (cases "ExtractWithStats DefaultConfig scenarioContent") auto
  with rest same show ?thesis by blast
qed

text \<open>
  C7. Deduplication keeps exactly the items at the positions that hold the first
  occurrence of their URL (the exact string), in the original order and unchanged, and
  removes every later occurrence.
\<close>
theorem DeduplicateURLs_first_occurrences:
  "DeduplicateURLs items = map ((!) items) (filter (firstOccurrence items) [0..<length items])"
  unfolding DeduplicateURLs_def by (rule deleteSeen_positions)

text \<open>The URLs \<open>u1, u2, u1\<close>: positions 0 and 1 are kept, position 2 is removed.\<close>
theorem DeduplicateURLs_first_occurrences_witness:
  "DeduplicateURLs repeatedItems = [repeatedItems ! 0, repeatedItems ! 1] \<and>
   filter (firstOccurrence repeatedItems) [0..<length repeatedItems] = [0, 1]"
proof -
  have "filter (firstOccurrence repeatedItems) [0..<length repeatedItems] = [0, 1]"
    by code_simp
  with DeduplicateURLs_first_occurrences [of repeatedItems] show ?thesis by simp
qed

section \<open>Properties of the downloader\<close>

lemma timeline_append [simp]: "timeline (xs @ ys) = timeline xs @ timeline ys"
  by (simp add: timeline_def)

lemma timeline_Nil [simp]: "timeline [] = []"
  by (simp add: timeline_def)

lemma timeline_Cons [simp]:
  "timeline (ev # evs) = (if isTiming ev then ev # timeline evs else timeline evs)"
  by (simp add: timeline_def)

lemma files_emit [simp]: "files (emit ev w) = files w"
  by (simp add: emit_def)

lemma log_emit [simp]: "log (emit ev w) = log w @ [ev]"
  by (simp add: emit_def)

lemma skippable_emit [simp]: "skippable (emit ev w) path = skippable w path"
  by (simp add: skippable_def)

lemma attempt_skipped:
  assumes "files w (destination d je item) = Some sz" and "0 < sint sz"
  shows "downloadFileWithContext d je ae item w =
           (\<lparr> Item = item, Size = sz, Err = None, Skipped = True \<rparr>, w)"
  using assms by (simp add: downloadFileWithContext_def destination_def fileExists_def)

lemma attempt_not_skipped:
  assumes "\<not> skippable w (destination d je item)"
    and "downloadFileWithContext d je ae item w = (r, w')"
  shows "Err r = attemptError d je ae item"
    and "timeline (log w') = timeline (log w)"
    and "Err r \<noteq> None \<Longrightarrow> removeError ae = None \<Longrightarrow> \<not> skippable w' (destination d je item)"
proof -
  let ?path = "Join je (outputDir d) (Filename item)"
  from assms(1) have no: "\<not> (fileExists w ?path \<and>
      (case files w ?path of None \<Rightarrow> False | Some sz \<Rightarrow> 0 < sint sz))"
    by (simp add: skippable_def destination_def split: option.splits)
  show "Err r = attemptError d je ae item"
    using assms(2) no
    by (auto simp: attemptError_def downloadFileWithContext_def Let_def fileExists_def failed_def
             split: option.splits sum.splits if_splits prod.splits)
  show "timeline (log w') = timeline (log w)"
    using assms(2) no
    by (auto simp: downloadFileWithContext_def Let_def failed_def
             split: option.splits sum.splits if_splits prod.splits)
  show "\<not> skippable w' (destination d je item)" if "Err r \<noteq> None" "removeError ae = None"
    using assms that no
    by (auto simp: downloadFileWithContext_def Let_def failed_def skippable_def destination_def
             split: option.splits sum.splits if_splits prod.splits)
qed

lemma attempt_failed:
  assumes "downloadFileWithContext d je ae item w = (r, w')" and "Err r \<noteq> None"
  shows "Size r = 0 \<and> \<not> Skipped r \<and>
     (\<exists>evs. log w' = log w @ evs \<and>
        (if FileCreate (destination d je item) \<in> set evs
         then last evs = FileRemove (destination d je item) \<and>
              (removeError ae = None \<longrightarrow> files w' = (files w)(destination d je item := None))
         else files w' = files w))"
  using assms
  by (auto simp: downloadFileWithContext_def Let_def failed_def destination_def
           split: option.splits sum.splits if_splits prod.splits)


lemma AddError_Some [simp]: "AddError errs (Some e) = errs @ [e]"
  by (simp add: AddError_def)

lemma downloadLoop_past: "retries d < a \<Longrightarrow> downloadLoop d je item a errs w = (failed item (MultiError errs), w)"
  by (subst downloadLoop.simps) simp

lemma downloadLoop_failed_step:
  assumes range: "0 \<le> a" "a \<le> retries d"
    and fresh: "\<not> skippable w (destination d je item)"
    and live: "(\<not> doneAtStart (attempts je (nat a)) \<and> removeError (attempts je (nat a)) = None)"
    and err: "attemptError d je (attempts je (nat a)) item = Some e"
  obtains w1 where
    "downloadFileWithContext d je (attempts je (nat a)) item (emit (Attempt (a + 1)) w) = (failed item e, w1)"
    "timeline (log w1) = timeline (log w) @ [Attempt (a + 1)]"
    "\<not> skippable w1 (destination d je item)"
    "downloadLoop d je item a errs w =
       (if Contains (Error e) ''404'' then (failed item (MultiError (errs @ [attemptFailure d je item a])), w1)
        else if a < retries d then
          (if doneInWait (attempts je (nat a)) then (failed item (ctxErr je), w1)
           else downloadLoop d je item (a + 1) (errs @ [attemptFailure d je item a]) (emit (Sleep (a + 1)) w1))
        else downloadLoop d je item (a + 1) (errs @ [attemptFailure d je item a]) w1)"
proof -
  obtain r w1 where
    run: "downloadFileWithContext d je (attempts je (nat a)) item (emit (Attempt (a + 1)) w) = (r, w1)"
    by (cases "downloadFileWithContext d je (attempts je (nat a)) item (emit (Attempt (a + 1)) w)")
  have fresh': "\<not> skippable (emit (Attempt (a + 1)) w) (destination d je item)"
    using fresh by simp
  from attempt_not_skipped(1) [OF fresh' run] err have r_err: "Err r = Some e" by simp
  from attempt_not_skipped(2) [OF fresh' run]
  have tl: "timeline (log w1) = timeline (log w) @ [Attempt (a + 1)]" by simp
  from attempt_not_skipped(3) [OF fresh' run] r_err live
  have still: "\<not> skippable w1 (destination d je item)" by simp
  from attempt_failed [OF run] r_err have "Size r = 0" "\<not> Skipped r" by simp_all
  moreover have "Item r = item"
    using run by (auto simp: downloadFileWithContext_def Let_def failed_def
                       split: option.splits sum.splits if_splits prod.splits)
  ultimately have r: "r = failed item e"
    using r_err by (simp add: failed_def)
  have loop: "downloadLoop d je item a errs w =
       (if Contains (Error e) ''404'' then (failed item (MultiError (errs @ [attemptFailure d je item a])), w1)
        else if a < retries d then
          (if doneInWait (attempts je (nat a)) then (failed item (ctxErr je), w1)
           else downloadLoop d je item (a + 1) (errs @ [attemptFailure d je item a]) (emit (Sleep (a + 1)) w1))
        else downloadLoop d je item (a + 1) (errs @ [attemptFailure d je item a]) w1)"
    by (subst downloadLoop.simps)
       (simp add: range live run r_err Let_def attemptFailure_def err)
  from run r tl still loop show thesis
    using that by simp
qed

lemma downloadLoop_chain:
  assumes "0 \<le> a" "a \<le> k" "k \<le> retries d"
    and "\<not> skippable w (destination d je item)"
    and "\<forall>j. a \<le> j \<and> j \<le> k \<longrightarrow> (\<not> doneAtStart (attempts je (nat j)) \<and> removeError (attempts je (nat j)) = None)"
    and "\<forall>j. a \<le> j \<and> j < k \<longrightarrow> \<not> doneInWait (attempts je (nat j)) \<and>
           (\<exists>e. attemptError d je (attempts je (nat j)) item = Some e \<and> \<not> Contains (Error e) ''404'')"
    and "\<exists>e. attemptError d je (attempts je (nat k)) item = Some e \<and>
           (Contains (Error e) ''404'' \<or> k = retries d)"
  shows "\<exists>w'. downloadLoop d je item a errs w =
             (failed item (MultiError (errs @ map (attemptFailure d je item) [a..k])), w') \<and>
           timeline (log w') = timeline (log w) @
             concat (map (\<lambda>j. [Attempt (j + 1), Sleep (j + 1)]) [a..k - 1]) @ [Attempt (k + 1)]"
  using assms
proof (induction "nat (k - a)" arbitrary: a errs w)
  case 0
  then have ak: "a = k" by simp
  from 0 obtain e where e: "attemptError d je (attempts je (nat a)) item = Some e"
    and stop: "Contains (Error e) ''404'' \<or> a = retries d"
    using ak by auto
  have live: "(\<not> doneAtStart (attempts je (nat a)) \<and> removeError (attempts je (nat a)) = None)" using 0 by simp
  have a_le: "a \<le> retries d" using 0 by simp
  from downloadLoop_failed_step [OF \<open>0 \<le> a\<close> a_le \<open>\<not> skippable w (destination d je item)\<close> live e, of errs]
  obtain w1 where
    tl: "timeline (log w1) = timeline (log w) @ [Attempt (a + 1)]"
    and loop: "downloadLoop d je item a errs w =
       (if Contains (Error e) ''404'' then (failed item (MultiError (errs @ [attemptFailure d je item a])), w1)
        else if a < retries d then
          (if doneInWait (attempts je (nat a)) then (failed item (ctxErr je), w1)
           else downloadLoop d je item (a + 1) (errs @ [attemptFailure d je item a]) (emit (Sleep (a + 1)) w1))
        else downloadLoop d je item (a + 1) (errs @ [attemptFailure d je item a]) w1)"
    by blast
  have "downloadLoop d je item a errs w = (failed item (MultiError (errs @ [attemptFailure d je item a])), w1)"
    using loop stop by (auto simp: downloadLoop_past)
  with tl ak show ?case by simp
next
  case (Suc n)
  then have lt: "a < k" by simp
  from Suc.prems lt obtain e where e: "attemptError d je (attempts je (nat a)) item = Some e"
    and go: "\<not> Contains (Error e) ''404''" and wait: "\<not> doneInWait (attempts je (nat a))"
    by (metis order_refl)
  have live: "(\<not> doneAtStart (attempts je (nat a)) \<and> removeError (attempts je (nat a)) = None)" using Suc.prems by simp
  have a_le: "a \<le> retries d" using Suc.prems by simp
  from downloadLoop_failed_step [OF \<open>0 \<le> a\<close> a_le \<open>\<not> skippable w (destination d je item)\<close> live e, of errs]
  obtain w1 where
    tl: "timeline (log w1) = timeline (log w) @ [Attempt (a + 1)]"
    and still: "\<not> skippable w1 (destination d je item)"
    and loop: "downloadLoop d je item a errs w =
       (if Contains (Error e) ''404'' then (failed item (MultiError (errs @ [attemptFailure d je item a])), w1)
        else if a < retries d then
          (if doneInWait (attempts je (nat a)) then (failed item (ctxErr je), w1)
           else downloadLoop d je item (a + 1) (errs @ [attemptFailure d je item a]) (emit (Sleep (a + 1)) w1))
        else downloadLoop d je item (a + 1) (errs @ [attemptFailure d je item a]) w1)"
    by blast
  have next_loop: "downloadLoop d je item a errs w =
      downloadLoop d je item (a + 1) (errs @ [attemptFailure d je item a]) (emit (Sleep (a + 1)) w1)"
    using loop go wait lt Suc.prems(3) by simp
  have n: "n = nat (k - (a + 1))" using Suc.hyps(2) by simp
  have still': "\<not> skippable (emit (Sleep (a + 1)) w1) (destination d je item)"
    using still by simp
  from Suc.hyps(1) [OF n _ _ Suc.prems(3) still', of "errs @ [attemptFailure d je item a]"] Suc.prems lt
  obtain w' where
    res: "downloadLoop d je item (a + 1) (errs @ [attemptFailure d je item a]) (emit (Sleep (a + 1)) w1) =
       (failed item (MultiError ((errs @ [attemptFailure d je item a]) @ map (attemptFailure d je item) [a + 1..k])), w')"
    and tl': "timeline (log w') = timeline (log (emit (Sleep (a + 1)) w1)) @
       concat (map (\<lambda>j. [Attempt (j + 1), Sleep (j + 1)]) [a + 1..k - 1]) @ [Attempt (k + 1)]"
    by auto
  have up1: "[a..k] = a # [a + 1..k]" using lt by (simp add: upto_rec1)
  have up2: "[a..k - 1] = a # [a + 1..k - 1]" using lt by (simp add: upto_rec1)
  show ?case
    unfolding next_loop res up1 up2 using tl tl' by simp
qed


lemma attempt_failed_result:
  assumes "downloadFileWithContext d je ae item w = (r, w')" and "Err r \<noteq> None"
  shows "Size r = 0 \<and> \<not> Skipped r"
  using attempt_failed [OF assms] by blast

lemma downloadLoop_failed:
  "downloadLoop d je item a errs w = (r, w') \<Longrightarrow> Err r \<noteq> None \<Longrightarrow>
     Size r = 0 \<and> \<not> Skipped r"
proof (induction d je item a errs w rule: downloadLoop.induct)
  case (1 d je item attempt errors w)
  let ?ae = "attempts je (nat attempt)"
  note run = "1.prems"(1) [unfolded downloadLoop.simps [of d je item attempt errors w]]
  show ?case
  proof (cases "attempt \<le> retries d")
    case False
    with run show ?thesis by (auto simp: failed_def)
  next
    case inside: True
    show ?thesis
    proof (cases "doneAtStart ?ae")
      case True
      with run inside show ?thesis by (auto simp: failed_def Let_def)
    next
      case live: False
      obtain res w1 where
        att: "downloadFileWithContext d je ?ae item (emit (Attempt (attempt + 1)) w) = (res, w1)"
        by (cases "downloadFileWithContext d je ?ae item (emit (Attempt (attempt + 1)) w)")
      show ?thesis
      proof (cases "Err res")
        case None
        with run inside live att "1.prems"(2) show ?thesis by (simp add: Let_def)
      next
        case (Some e)
        let ?errs = "AddError errors (Some (Wrapf (''attempt '' @ showInt (attempt + 1) @ '': '') e))"
        consider (stop) "Contains (Error e) ''404''"
          | (cancel) "\<not> Contains (Error e) ''404''" "attempt < retries d" "doneInWait ?ae"
          | (wait) "\<not> Contains (Error e) ''404''" "attempt < retries d" "\<not> doneInWait ?ae"
          | (last) "\<not> Contains (Error e) ''404''" "\<not> attempt < retries d"
          by blast
        then show ?thesis
        proof cases
          case stop
          with run inside live att Some show ?thesis
            by (auto simp: Let_def failed_def)
        next
          case cancel
          with run inside live att Some show ?thesis
            by (auto simp: Let_def failed_def)
        next
          case wait
          with run inside live att Some
          have rec: "downloadLoop d je item (attempt + 1) ?errs (emit (Sleep (attempt + 1)) w1) = (r, w')"
            by (simp add: Let_def)
          from "1.IH"(1) [OF inside refl live att [symmetric] Some refl wait(1) wait(2) wait(3) rec "1.prems"(2)]
          show ?thesis .
        next
          case last
          with run inside live att Some
          have rec: "downloadLoop d je item (attempt + 1) ?errs w1 = (r, w')"
            by (simp add: Let_def)
          from "1.IH"(2) [OF inside refl live att [symmetric] Some refl last(1) last(2) rec "1.prems"(2)]
          show ?thesis .
        qed
      qed
    qed
  qed
qed

lemma drain_snoc:
  "drain hasCallback items (rs @ [r]) = drainResult hasCallback (drain hasCallback items rs) r"
  by (simp add: drain_def)

lemma drain_Nil: "drain hasCallback items [] = startAggregator items"
  by (simp add: drain_def)

text \<open>A job always returns a result for its own item.\<close>

lemma attempt_item: "Item (fst (downloadFileWithContext d je ae item w)) = item"
  by (simp add: downloadFileWithContext_def Let_def failed_def
        split: option.splits sum.splits prod.splits)

lemma downloadLoop_item: "Item (fst (downloadLoop d je item a errs w)) = item"
proof (induction d je item a errs w rule: downloadLoop.induct)
  case (1 d je item attempt errors w)
  let ?ae = "attempts je (nat attempt)"
  obtain res w1 where
    att: "downloadFileWithContext d je ?ae item (emit (Attempt (attempt + 1)) w) = (res, w1)"
    by (cases "downloadFileWithContext d je ?ae item (emit (Attempt (attempt + 1)) w)")
  from attempt_item [of d je ?ae item "emit (Attempt (attempt + 1)) w"] att
  have res: "Item res = item" by simp
  show ?case
    using "1.IH" att res
    by (subst downloadLoop.simps) (auto simp: Let_def failed_def split: option.splits)
qed

lemma job_item: "Item (fst (downloadFileWithRetryAndContext d je item w)) = item"
  by (simp add: downloadFileWithRetryAndContext_def downloadLoop_item)

subsection \<open>The claims about the downloader\<close>

lemma example_destination [simp]:
  "destination exampleDownloader serverErrorEnv exampleItem = ''out/0_a.png''"
  "destination exampleDownloader notFoundEnv exampleItem = ''out/0_a.png''"
  "destination exampleDownloader cancelledEnv exampleItem = ''out/0_a.png''"
  "destination exampleDownloader cancelledInWaitEnv exampleItem = ''out/0_a.png''"
  "destination exampleDownloader brokenCopyEnv exampleItem = ''out/0_a.png''"
  by (simp_all add: destination_def exampleDownloader_def serverErrorEnv_def notFoundEnv_def
        cancelledEnv_def cancelledInWaitEnv_def brokenCopyEnv_def exampleItem_def slashJoin_def)

lemma showInt_examples:
  "showInt 500 = ''500''" "showInt 404 = ''404''"
  "showInt 1 = ''1''" "showInt 2 = ''2''" "showInt 3 = ''3''"
  by code_simp+

lemma notFound_error:
  "notFound ae \<Longrightarrow> attemptError d je ae item = Some (ErrorString ''HTTP 404'')"
  by (auto simp: notFound_def attemptError_def downloadFileWithContext_def Let_def fileExists_def
        failed_def showInt_examples split: sum.splits)

lemma not_found_text: "Contains (Error (ErrorString ''HTTP 404'')) ''404''"
  by simp

lemma statusAttempt_error:
  "code \<noteq> 200 \<Longrightarrow>
   attemptError d je (statusAttempt code) item = Some (ErrorString (''HTTP '' @ showInt code))"
  by (simp add: attemptError_def downloadFileWithContext_def Let_def fileExists_def failed_def
        statusAttempt_def)

text \<open>
  C4. Retry bound. The claim is that a job whose attempts all fail with errors outside
  the not-found class is attempted \<open>retries + 1\<close> times, with waits of 1, 2, ...
  seconds between the attempts. The loop decides the class by searching the text of the
  error for \<open>404\<close>, so it also stops on other errors whose text has these digits. Here
  \<open>retries\<close> is 2, the context is never done, and the only attempt fails with a
  refused connection, which is not a not-found answer, for a URL that contains 404: the
  job ends after that one attempt, without a wait and without the two further attempts.
\<close>
theorem not_found_test_matches_other_errors:
  "retries exampleDownloader = 2 \<and>
   \<not> doneAtStart (attempts refusedEnv 0) \<and> \<not> doneInWait (attempts refusedEnv 0) \<and>
   \<not> notFound (attempts refusedEnv 0) \<and>
   attemptError exampleDownloader refusedEnv (attempts refusedEnv 0) item404
     = Some (Wrapf ''HTTP request failed: '' refusedError) \<and>
   fst (downloadFileWithRetryAndContext exampleDownloader refusedEnv item404 emptyWorld) =
     failed item404
       (MultiError [Wrapf ''attempt 1: '' (Wrapf ''HTTP request failed: '' refusedError)]) \<and>
   timeline (log (snd (downloadFileWithRetryAndContext exampleDownloader refusedEnv item404 emptyWorld)))
     = [Attempt 1]"
proof -
  have hit: "Contains (Error (Wrapf ''HTTP request failed: '' refusedError)) ''404''"
    by (simp add: refusedError_def)
  have "downloadFileWithRetryAndContext exampleDownloader refusedEnv item404 emptyWorld =
     (failed item404 (MultiError [Wrapf ''attempt 1: '' (Wrapf ''HTTP request failed: '' refusedError)]),
      \<lparr> files = Map.empty, log = [Attempt 1, HttpGet ''https://telegra.ph/file/x404.png''] \<rparr>)"
    unfolding downloadFileWithRetryAndContext_def
    by (subst downloadLoop.simps)
       (simp add: hit exampleDownloader_def refusedEnv_def statusAttempt_def emptyWorld_def
          downloadFileWithContext_def Let_def fileExists_def failed_def emit_def buildURL_def
          item404_def showInt_examples del: Contains.simps Error.simps)
  moreover
  have "attemptError exampleDownloader refusedEnv (attempts refusedEnv 0) item404
     = Some (Wrapf ''HTTP request failed: '' refusedError)"
    by (simp add: attemptError_def refusedEnv_def statusAttempt_def downloadFileWithContext_def
          Let_def fileExists_def failed_def)
  ultimately show ?thesis
    by (simp add: notFound_def refusedEnv_def statusAttempt_def exampleDownloader_def)
qed

text \<open>
  The schedule of the loop on errors whose text is free of \<open>404\<close>. Assume that no file
  is in the way, that up to iteration \<open>k\<close> the context is not done at any check and
  every removal of a partial file succeeds, and that the attempts before iteration \<open>k\<close>
  fail with errors whose text does not contain \<open>404\<close>. If \<open>k = retries\<close> and that
  attempt fails in the same way, or if iteration \<open>k\<close> is answered with the status 404,
  then the job fails with the errors of the attempts \<open>1, ..., k + 1\<close> in order, and its
  attempts and waits are: attempt \<open>j\<close> followed by a wait of \<open>j\<close> seconds for
  \<open>j = 1, ..., k\<close>, then attempt \<open>k + 1\<close> and nothing more.
\<close>

lemma retry_schedule:
  assumes "0 \<le> k" and "k \<le> retries d"
    and "\<not> skippable w (destination d je item)"
    and "\<forall>j. 0 \<le> j \<and> j \<le> k \<longrightarrow>
           \<not> doneAtStart (attempts je (nat j)) \<and> \<not> doneInWait (attempts je (nat j)) \<and>
           removeError (attempts je (nat j)) = None"
    and "\<forall>j. 0 \<le> j \<and> j < k \<longrightarrow>
           (\<exists>e. attemptError d je (attempts je (nat j)) item = Some e \<and> \<not> Contains (Error e) ''404'')"
    and "(k = retries d \<and>
            (\<exists>e. attemptError d je (attempts je (nat k)) item = Some e \<and> \<not> Contains (Error e) ''404''))
         \<or> notFound (attempts je (nat k))"
  shows "\<exists>w'. downloadFileWithRetryAndContext d je item w =
             (failed item (MultiError (map (attemptFailure d je item) [0..k])), w') \<and>
           timeline (log w') = timeline (log w) @ schedule k"
proof -
  have last: "\<exists>e. attemptError d je (attempts je (nat k)) item = Some e \<and>
           (Contains (Error e) ''404'' \<or> k = retries d)"
    using assms(6) notFound_error [of "attempts je (nat k)" d je item] not_found_text by auto
  have live: "\<forall>j. 0 \<le> j \<and> j \<le> k \<longrightarrow>
      (\<not> doneAtStart (attempts je (nat j)) \<and> removeError (attempts je (nat j)) = None)"
    using assms(4) by blast
  have before: "\<forall>j. 0 \<le> j \<and> j < k \<longrightarrow> \<not> doneInWait (attempts je (nat j)) \<and>
           (\<exists>e. attemptError d je (attempts je (nat j)) item = Some e \<and> \<not> Contains (Error e) ''404'')"
    using assms(4,5) by (metis less_imp_le)
  from downloadLoop_chain [OF order_refl assms(1) assms(2) assms(3) live before last, of "[]"]
  show ?thesis
    by (simp add: downloadFileWithRetryAndContext_def schedule_def)
qed

text \<open>
  The fifth and the fourth scenario of the specification, with \<open>retries = 2\<close>: status
  500 on every attempt, and status 404 on the first attempt.
\<close>

lemma retry_schedule_scenarios:
  "fst (downloadFileWithRetryAndContext exampleDownloader serverErrorEnv exampleItem emptyWorld) =
     failed exampleItem (MultiError
       [Wrapf ''attempt 1: '' (ErrorString ''HTTP 500''),
        Wrapf ''attempt 2: '' (ErrorString ''HTTP 500''),
        Wrapf ''attempt 3: '' (ErrorString ''HTTP 500'')]) \<and>
   timeline (log (snd (downloadFileWithRetryAndContext exampleDownloader serverErrorEnv exampleItem emptyWorld)))
     = [Attempt 1, Sleep 1, Attempt 2, Sleep 2, Attempt 3] \<and>
   fst (downloadFileWithRetryAndContext exampleDownloader notFoundEnv exampleItem emptyWorld) =
     failed exampleItem (MultiError [Wrapf ''attempt 1: '' (ErrorString ''HTTP 404'')]) \<and>
   timeline (log (snd (downloadFileWithRetryAndContext exampleDownloader notFoundEnv exampleItem emptyWorld)))
     = [Attempt 1]"
proof -
  have fresh: "\<not> skippable emptyWorld p" for p
    by (simp add: skippable_def emptyWorld_def)
  have r: "retries exampleDownloader = 2" by (simp add: exampleDownloader_def)
  have e500: "attemptError exampleDownloader serverErrorEnv (attempts serverErrorEnv j) exampleItem
      = Some (ErrorString ''HTTP 500'')" for j
    by (simp add: serverErrorEnv_def statusAttempt_error showInt_examples)
  have e404: "attemptError exampleDownloader notFoundEnv (attempts notFoundEnv j) exampleItem
      = Some (ErrorString ''HTTP 404'')" for j
    by (simp add: notFoundEnv_def statusAttempt_error showInt_examples)
  have no500: "\<not> Contains (Error (ErrorString ''HTTP 500'')) ''404''" by simp
  have calm: "\<not> doneAtStart (attempts serverErrorEnv j) \<and> \<not> doneInWait (attempts serverErrorEnv j)
      \<and> removeError (attempts serverErrorEnv j) = None"
    "\<not> doneAtStart (attempts notFoundEnv j) \<and> \<not> doneInWait (attempts notFoundEnv j)
      \<and> removeError (attempts notFoundEnv j) = None" for j
    by (simp_all add: serverErrorEnv_def notFoundEnv_def statusAttempt_def)
  have nf: "notFound (attempts notFoundEnv (nat 0))"
    by (simp add: notFoundEnv_def notFound_def statusAttempt_def)
  have names: "map (attemptFailure exampleDownloader serverErrorEnv exampleItem) [0..2] =
       [Wrapf ''attempt 1: '' (ErrorString ''HTTP 500''),
        Wrapf ''attempt 2: '' (ErrorString ''HTTP 500''),
        Wrapf ''attempt 3: '' (ErrorString ''HTTP 500'')]"
    "map (attemptFailure exampleDownloader notFoundEnv exampleItem) [0..0] =
       [Wrapf ''attempt 1: '' (ErrorString ''HTTP 404'')]"
    by (simp_all add: upto_rec1 attemptFailure_def e500 e404 showInt_examples)
  have sched: "schedule 2 = [Attempt 1, Sleep 1, Attempt 2, Sleep 2, Attempt 3]"
    "schedule 0 = [Attempt 1]"
    by (simp_all add: schedule_def upto_rec1)
  have "\<exists>w'. downloadFileWithRetryAndContext exampleDownloader serverErrorEnv exampleItem emptyWorld =
             (failed exampleItem (MultiError (map (attemptFailure exampleDownloader serverErrorEnv exampleItem) [0..2])), w') \<and>
           timeline (log w') = timeline (log emptyWorld) @ schedule 2"
    by (rule retry_schedule) (use fresh r e500 no500 calm in auto)
  moreover
  have "\<exists>w'. downloadFileWithRetryAndContext exampleDownloader notFoundEnv exampleItem emptyWorld =
             (failed exampleItem (MultiError (map (attemptFailure exampleDownloader notFoundEnv exampleItem) [0..0])), w') \<and>
           timeline (log w') = timeline (log emptyWorld) @ schedule 0"
    by (rule retry_schedule) (use fresh r calm nf in auto)
  ultimately show ?thesis
    unfolding names sched by (auto simp: emptyWorld_def)
qed

text \<open>
  Cancellation during a back-off wait ends the job with the cancellation error, as the
  specification prescribes: here after the first of three possible attempts.
\<close>

lemma cancelled_wait_ends_job:
  "retries exampleDownloader = 2 \<and>
   attemptError exampleDownloader cancelledInWaitEnv (attempts cancelledInWaitEnv 0) exampleItem
     = Some (ErrorString ''HTTP 500'') \<and>
   \<not> Contains (Error (ErrorString ''HTTP 500'')) ''404'' \<and>
   fst (downloadFileWithRetryAndContext exampleDownloader cancelledInWaitEnv exampleItem emptyWorld)
     = failed exampleItem Canceled \<and>
   timeline (log (snd (downloadFileWithRetryAndContext exampleDownloader cancelledInWaitEnv exampleItem emptyWorld)))
     = [Attempt 1]"
proof -
  have run: "downloadFileWithRetryAndContext exampleDownloader cancelledInWaitEnv exampleItem emptyWorld
     = (failed exampleItem Canceled,
        \<lparr> files = Map.empty, log = [Attempt 1, HttpGet ''https://telegra.ph/file/a.png''] \<rparr>)"
    unfolding downloadFileWithRetryAndContext_def
    by (subst downloadLoop.simps)
       (simp add: exampleDownloader_def cancelledInWaitEnv_def statusAttempt_def emptyWorld_def
          downloadFileWithContext_def Let_def fileExists_def failed_def emit_def buildURL_def
          exampleItem_def showInt_examples)
  have "attemptError exampleDownloader cancelledInWaitEnv (attempts cancelledInWaitEnv 0) exampleItem
     = Some (ErrorString ''HTTP 500'')"
    by (simp add: attemptError_def cancelledInWaitEnv_def statusAttempt_def
          downloadFileWithContext_def Let_def fileExists_def failed_def showInt_examples)
  with run show ?thesis by (simp add: exampleDownloader_def)
qed

lemma brokenCopy_result: "Err brokenCopyResult \<noteq> None \<and> Size brokenCopyResult = 0"
  by (simp add: brokenCopyResult_def failed_def)

text \<open>
  C8. Partial files. The claim is that after an attempt that fails any partially written
  destination file is deleted, and that no result carries both a size and an error. The
  second part holds (see \<open>failed_result_carries_no_size\<close> below). For the first part the
  source calls \<open>os.Remove\<close> while the file is still open and discards its error. When
  the operating system refuses the removal for that reason, the attempt returns its
  error with size 0 and the file that it created stays, here with the 100 bytes copied
  before the read failed.
\<close>
theorem partial_file_survives_refused_removal:
  "Err brokenCopyResult \<noteq> None \<and> Size brokenCopyResult = 0 \<and>
   downloadFileWithContext exampleDownloader stuckCopyEnv stuckCopyAttempt exampleItem emptyWorld
     = (brokenCopyResult, stuckCopyWorld) \<and>
   FileCreate ''out/0_a.png'' \<in> set (log stuckCopyWorld) \<and>
   files stuckCopyWorld ''out/0_a.png'' = Some 100"
proof -
  have "downloadFileWithContext exampleDownloader stuckCopyEnv stuckCopyAttempt exampleItem emptyWorld
     = (brokenCopyResult, stuckCopyWorld)"
    by (simp add: downloadFileWithContext_def Let_def fileExists_def emptyWorld_def stuckCopyEnv_def
          stuckCopyAttempt_def brokenCopyAttempt_def brokenBody_def exampleDownloader_def
          exampleItem_def slashJoin_def buildURL_def emit_def brokenCopyResult_def
          stuckCopyWorld_def failed_def)
  with brokenCopy_result show ?thesis
    by (simp add: stuckCopyWorld_def)
qed

text \<open>
  The file that stayed is then taken for a finished download: the second attempt of the
  same job finds it and returns Skipped with its 100 bytes.
\<close>

lemma partial_file_is_skipped_on_retry:
  "fst (downloadFileWithRetryAndContext exampleDownloader stuckCopyEnv exampleItem emptyWorld)
     = \<lparr> Item = exampleItem, Size = 100, Err = None, Skipped = True \<rparr> \<and>
   timeline (log (snd (downloadFileWithRetryAndContext exampleDownloader stuckCopyEnv exampleItem emptyWorld)))
     = [Attempt 1, Sleep 1, Attempt 2]"
proof -
  let ?w1 = "\<lparr> files = [''out/0_a.png'' \<mapsto> (100 :: 64 word)],
       log = [Attempt 1, HttpGet ''https://telegra.ph/file/a.png'', FileCreate ''out/0_a.png'',
              FileRemove ''out/0_a.png'', Sleep 1] \<rparr>"
  have no404: "\<not> Contains (Error (Wrapf ''failed to copy file: '' (ErrorString ''unexpected EOF''))) ''404''"
    by simp
  have first: "downloadLoop exampleDownloader stuckCopyEnv exampleItem 0 [] emptyWorld =
      downloadLoop exampleDownloader stuckCopyEnv exampleItem 1
        [Wrapf ''attempt 1: '' (Wrapf ''failed to copy file: '' (ErrorString ''unexpected EOF''))] ?w1"
    by (subst downloadLoop.simps)
       (simp add: no404 downloadFileWithContext_def Let_def fileExists_def emptyWorld_def
          stuckCopyEnv_def stuckCopyAttempt_def brokenCopyAttempt_def brokenBody_def
          exampleDownloader_def exampleItem_def slashJoin_def buildURL_def emit_def failed_def
          showInt_examples del: Contains.simps Error.simps)
  have second: "downloadLoop exampleDownloader stuckCopyEnv exampleItem 1
        [Wrapf ''attempt 1: '' (Wrapf ''failed to copy file: '' (ErrorString ''unexpected EOF''))] ?w1
      = (\<lparr> Item = exampleItem, Size = 100, Err = None, Skipped = True \<rparr>, emit (Attempt 2) ?w1)"
    by (subst downloadLoop.simps)
       (simp add: downloadFileWithContext_def Let_def fileExists_def
          stuckCopyEnv_def stuckCopyAttempt_def brokenCopyAttempt_def
          exampleDownloader_def exampleItem_def slashJoin_def emit_def)
  show ?thesis
    unfolding downloadFileWithRetryAndContext_def first second by (simp add: emit_def)
qed

text \<open>
  What holds of a failed attempt and of a failed job: the result carries no size and is
  not marked skipped, so the count of bytes that a failed copy returns is dropped and a
  size appears only in a result without an error.
\<close>

lemma failed_result_carries_no_size:
  assumes "Err r \<noteq> None"
  shows "(downloadFileWithContext d je ae item w = (r, w') \<longrightarrow> Size r = 0 \<and> \<not> Skipped r) \<and>
         (downloadFileWithRetryAndContext d je item w = (r, w') \<longrightarrow> Size r = 0 \<and> \<not> Skipped r)"
proof (intro conjI impI)
  assume run: "downloadFileWithContext d je ae item w = (r, w')"
  from attempt_failed_result [OF run assms] show "Size r = 0" and "\<not> Skipped r" by blast+
next
  assume "downloadFileWithRetryAndContext d je item w = (r, w')"
  then have "downloadLoop d je item 0 [] w = (r, w')"
    by (simp add: downloadFileWithRetryAndContext_def)
  from downloadLoop_failed [OF this assms] show "Size r = 0" and "\<not> Skipped r" by blast+
qed

text \<open>
  A failed attempt that created the destination file ends with the call of
  \<open>os.Remove\<close> on it, and when that call succeeds the file is absent afterwards; an
  attempt that fails earlier leaves the file system as it was.
\<close>

lemma failed_attempt_cleanup:
  assumes "downloadFileWithContext d je ae item w = (r, w')" and "Err r \<noteq> None"
  shows "\<exists>evs. log w' = log w @ evs \<and>
           (if FileCreate (destination d je item) \<in> set evs
            then last evs = FileRemove (destination d je item) \<and>
                 (removeError ae = None \<longrightarrow> files w' = (files w)(destination d je item := None))
            else files w' = files w)"
  using attempt_failed [OF assms] by blast

lemma brokenCopy_run:
  "downloadFileWithContext exampleDownloader brokenCopyEnv brokenCopyAttempt exampleItem emptyWorld
     = (brokenCopyResult, brokenCopyWorld)"
  by (simp add: downloadFileWithContext_def Let_def fileExists_def emptyWorld_def brokenCopyEnv_def
        brokenCopyAttempt_def brokenBody_def exampleDownloader_def exampleItem_def slashJoin_def
        buildURL_def emit_def brokenCopyResult_def brokenCopyWorld_def failed_def)

text \<open>
  C9. The aggregator. Draining one more result is one step of \<open>drainResult\<close>, and
  after the results \<open>rs\<close> have been drained the three counters count the successful,
  the failed and the skipped results of \<open>rs\<close>, so each result has incremented exactly
  one of them and their sum is the number of drained results. \<open>TotalSize\<close> is the
  (64-bit) sum of the sizes of the successful results only.
\<close>
theorem aggregator_counts:
  "drain hasCallback items (rs @ [r]) = drainResult hasCallback (drain hasCallback items rs) r \<and>
   Successful (stats (drain hasCallback items rs)) = int (length (filter successful rs)) \<and>
   Failed (stats (drain hasCallback items rs)) = int (length (filter (\<lambda>r. Err r \<noteq> None) rs)) \<and>
   SkippedCount (stats (drain hasCallback items rs))
     = int (length (filter (\<lambda>r. Err r = None \<and> Skipped r) rs)) \<and>
   Successful (stats (drain hasCallback items rs)) + Failed (stats (drain hasCallback items rs))
     + SkippedCount (stats (drain hasCallback items rs)) = int (length rs) \<and>
   TotalSize (stats (drain hasCallback items rs)) = sum_list (map Size (filter successful rs)) \<and>
   Total (stats (drain hasCallback items rs)) = int (length items) \<and>
   allResults (drain hasCallback items rs) = rs \<and>
   completed (drain hasCallback items rs) = int (length rs)"
proof (intro conjI)
  show "drain hasCallback items (rs @ [r]) = drainResult hasCallback (drain hasCallback items rs) r"
    by (rule drain_snoc)
  have all: "Successful (stats (drain hasCallback items rs)) = int (length (filter successful rs)) \<and>
   Failed (stats (drain hasCallback items rs)) = int (length (filter (\<lambda>r. Err r \<noteq> None) rs)) \<and>
   SkippedCount (stats (drain hasCallback items rs))
     = int (length (filter (\<lambda>r. Err r = None \<and> Skipped r) rs)) \<and>
   Successful (stats (drain hasCallback items rs)) + Failed (stats (drain hasCallback items rs))
     + SkippedCount (stats (drain hasCallback items rs)) = int (length rs) \<and>
   TotalSize (stats (drain hasCallback items rs)) = sum_list (map Size (filter successful rs)) \<and>
   Total (stats (drain hasCallback items rs)) = int (length items) \<and>
   allResults (drain hasCallback items rs) = rs \<and>
   completed (drain hasCallback items rs) = int (length rs)"
  proof (induction rs rule: rev_induct)
    case Nil
    show ?case by (simp add: drain_Nil startAggregator_def)
  next
    case (snoc x xs)
    then show ?case
      unfolding drain_snoc by (simp add: drainResult_def Let_def successful_def)
  qed
  then show "Successful (stats (drain hasCallback items rs)) = int (length (filter successful rs))"
    and "Failed (stats (drain hasCallback items rs)) = int (length (filter (\<lambda>r. Err r \<noteq> None) rs))"
    and "SkippedCount (stats (drain hasCallback items rs))
       = int (length (filter (\<lambda>r. Err r = None \<and> Skipped r) rs))"
    and "Successful (stats (drain hasCallback items rs)) + Failed (stats (drain hasCallback items rs))
       + SkippedCount (stats (drain hasCallback items rs)) = int (length rs)"
    and "TotalSize (stats (drain hasCallback items rs)) = sum_list (map Size (filter successful rs))"
    and "Total (stats (drain hasCallback items rs)) = int (length items)"
    and "allResults (drain hasCallback items rs) = rs"
    and "completed (drain hasCallback items rs) = int (length rs)"
    by simp_all
qed

text \<open>
  C5, amended. When the destination holds a file of size greater than 0, \<open>retries\<close> is
  not negative and the context is not done at the check at the top of the first
  iteration, the job returns Skipped with the size of that file in its first iteration:
  the only effect is the marker of that one attempt, so no HTTP request is issued, no
  wait happens, no second iteration runs and the file system is unchanged.
\<close>
theorem skip_existing_file:
  assumes "files w (destination d je item) = Some sz" and "0 < sint sz"
    and "0 \<le> retries d" and "\<not> doneAtStart (attempts je 0)"
  shows "downloadFileWithRetryAndContext d je item w =
           (\<lparr> Item = item, Size = sz, Err = None, Skipped = True \<rparr>, emit (Attempt 1) w)"
proof -
  have "files (emit (Attempt 1) w) (destination d je item) = Some sz"
    using assms(1) by simp
  from attempt_skipped [OF this assms(2)]
  have "downloadFileWithContext d je (attempts je 0) item (emit (Attempt 1) w) =
      (\<lparr> Item = item, Size = sz, Err = None, Skipped = True \<rparr>, emit (Attempt 1) w)" .
  then show ?thesis
    unfolding downloadFileWithRetryAndContext_def
    by (subst downloadLoop.simps) (simp add: assms Let_def)
qed

text \<open>The third scenario of the specification: a file of 1024 bytes.\<close>
theorem skip_existing_file_witness:
  "files downloadedWorld (destination exampleDownloader serverErrorEnv exampleItem) = Some 1024 \<and>
   downloadFileWithRetryAndContext exampleDownloader serverErrorEnv exampleItem downloadedWorld =
     (\<lparr> Item = exampleItem, Size = 1024, Err = None, Skipped = True \<rparr>,
      emit (Attempt 1) downloadedWorld) \<and>
   requests (log (emit (Attempt 1) downloadedWorld)) = []"
proof -
  have f: "files downloadedWorld (destination exampleDownloader serverErrorEnv exampleItem) = Some 1024"
    by (simp add: downloadedWorld_def)
  have s: "0 < sint (1024 :: 64 word)" by simp
  have r: "0 \<le> retries exampleDownloader" by (simp add: exampleDownloader_def)
  have c: "\<not> doneAtStart (attempts serverErrorEnv 0)"
    by (simp add: serverErrorEnv_def statusAttempt_def)
  have q: "requests (log (emit (Attempt 1) downloadedWorld)) = []"
    by (simp add: requests_def downloadedWorld_def)
  from skip_existing_file [OF f s r c] f q show ?thesis by simp
qed

text \<open>
  C5 as stated fails: the skip check is inside the loop, after the check of the context.
  With the same file of 1024 bytes and a context that is already cancelled the job
  returns the cancellation error, not Skipped.
\<close>
theorem skip_existing_file_counterexample:
  "files downloadedWorld (destination exampleDownloader cancelledEnv exampleItem) = Some 1024 \<and>
   0 < sint (1024 :: 64 word) \<and>
   downloadFileWithRetryAndContext exampleDownloader cancelledEnv exampleItem downloadedWorld =
     (\<lparr> Item = exampleItem, Size = 0, Err = Some Canceled, Skipped = False \<rparr>, downloadedWorld)"
proof -
  have "downloadFileWithRetryAndContext exampleDownloader cancelledEnv exampleItem downloadedWorld =
     (\<lparr> Item = exampleItem, Size = 0, Err = Some Canceled, Skipped = False \<rparr>, downloadedWorld)"
    unfolding downloadFileWithRetryAndContext_def
    by (subst downloadLoop.simps)
       (simp add: exampleDownloader_def cancelledEnv_def failed_def)
  then show ?thesis by (simp add: downloadedWorld_def)
qed

section \<open>Properties of the worker pool\<close>

lemma held_update:
  "i < length ws \<Longrightarrow> held (ws[i := x]) + holding (ws ! i) = held ws + holding x"
proof (induction ws arbitrary: i)
  case Nil
  then show ?case by simp
next
  case (Cons w ws)
  show ?case
  proof (cases i)
    case 0
    then show ?thesis by simp
  next
    case (Suc j)
    with Cons.prems have "j < length ws" by simp
    from Cons.IH [OF this] Suc show ?thesis
      by (simp add: add.assoc)
  qed
qed

lemma held_replicate: "held (replicate n Receiving) = {#}"
  by (induction n) simp_all

lemma held_all_exited: "\<forall>w \<in> set ws. w = Exited \<Longrightarrow> held ws = {#}"
  by (induction ws) simp_all

lemma drain_allResults: "allResults (drain hasCallback items rs) = rs"
proof (induction rs rule: rev_induct)
  case Nil
  show ?case by (simp add: drain_Nil startAggregator_def)
next
  case (snoc x xs)
  then show ?case unfolding drain_snoc by (simp add: drainResult_def Let_def)
qed

lemma drain_total: "Total (stats (drain hasCallback items rs)) = int (length items)"
proof (induction rs rule: rev_induct)
  case Nil
  show ?case by (simp add: drain_Nil startAggregator_def)
next
  case (snoc x xs)
  then show ?case unfolding drain_snoc by (simp add: drainResult_def Let_def)
qed

lemma invariant_init: "poolInvariant hasCallback d items (initPool d items)"
  by (simp add: poolInvariant_def initPool_def inPool_def held_replicate drain_Nil
        startAggregator_def)

lemma set_update_Exited:
  "i < length ws \<Longrightarrow> Exited \<in> set (ws[i := x]) \<Longrightarrow> x \<noteq> Exited \<Longrightarrow> Exited \<in> set ws"
  by (metis in_set_conv_nth length_list_update nth_list_update_eq nth_list_update_neq)

lemma invariant_step:
  assumes "poolStep hasCallback s s'" and "poolInvariant hasCallback d items s"
  shows "poolInvariant hasCallback d items s'"
  using assms
proof (cases rule: poolStep.cases)
  case Cancel
  with assms(2) show ?thesis by (simp add: poolInvariant_def inPool_def)
next
  case (Send item rest)
  with assms(2) show ?thesis by (auto simp: poolInvariant_def inPool_def)
next
  case SenderCancelled
  with assms(2) show ?thesis by (simp add: poolInvariant_def inPool_def)
next
  case SenderDone
  with assms(2) show ?thesis by (simp add: poolInvariant_def inPool_def)
next
  case (Take i item rest r)
  from held_update [OF Take(2), of "Sending r"] Take(3,5)
  have h: "held ((workers s)[i := Sending r]) = held (workers s) + {#item#}" by simp
  have e: "Exited \<in> set ((workers s)[i := Sending r]) \<Longrightarrow> Exited \<in> set (workers s)"
    using set_update_Exited [OF Take(2)] by blast
  have "inPool s' = inPool s"
    using Take h by (simp add: inPool_def)
  with assms(2) Take e show ?thesis
    by (auto simp: poolInvariant_def)
next
  case (Closed i)
  from held_update [OF Closed(2), of Exited] Closed(3)
  have h: "held ((workers s)[i := Exited]) = held (workers s)" by simp
  have "inPool s' = inPool s"
    using Closed h by (simp add: inPool_def)
  with assms(2) Closed show ?thesis
    by (auto simp: poolInvariant_def)
next
  case (Cancelled i)
  from held_update [OF Cancelled(2), of Exited] Cancelled(3)
  have h: "held ((workers s)[i := Exited]) = held (workers s)" by simp
  have "inPool s' = inPool s"
    using Cancelled h by (simp add: inPool_def)
  with assms(2) Cancelled show ?thesis
    by (auto simp: poolInvariant_def)
next
  case (Deliver i r)
  from held_update [OF Deliver(2), of Receiving] Deliver(3)
  have h: "held ((workers s)[i := Receiving]) + {#Item r#} = held (workers s)" by simp
  have e: "Exited \<in> set ((workers s)[i := Receiving]) \<Longrightarrow> Exited \<in> set (workers s)"
    using set_update_Exited [OF Deliver(2)] by blast
  have "inPool s' = inPool s"
    using Deliver h [symmetric] by (simp add: inPool_def)
  with assms(2) Deliver e show ?thesis
    by (auto simp: poolInvariant_def)
next
  case (Dropped i r)
  from held_update [OF Dropped(2), of Exited] Dropped(3)
  have h: "held ((workers s)[i := Exited]) + {#Item r#} = held (workers s)" by simp
  have "inPool s' \<subseteq># inPool s"
    using Dropped h [symmetric] by (simp add: inPool_def)
  with assms(2) Dropped show ?thesis
    by (auto simp: poolInvariant_def intro: subset_mset.order_trans)
next
  case (Drain r rest)
  have "inPool s' = inPool s"
    using Drain by (simp add: inPool_def drainResult_def Let_def)
  moreover have "agg s' = drain hasCallback items (allResults (agg s'))"
  proof -
    from assms(2) have a: "agg s = drain hasCallback items (allResults (agg s))"
      by (simp add: poolInvariant_def)
    have "allResults (agg s') = allResults (agg s) @ [r]"
      using Drain by (simp add: drainResult_def Let_def)
    then show ?thesis
      using Drain a by (simp add: drain_snoc)
  qed
  ultimately show ?thesis
    using assms(2) Drain by (auto simp: poolInvariant_def)
qed

lemma invariant_run:
  assumes "(poolStep hasCallback)\<^sup>*\<^sup>* (initPool d items) s"
  shows "poolInvariant hasCallback d items s"
  using assms
proof (induction rule: rtranclp_induct)
  case base
  show ?case by (rule invariant_init)
next
  case (step y z)
  from invariant_step [OF step(2) step(3)] show ?case .
qed

lemma running_update:
  "i < length ws \<Longrightarrow> ws ! i \<noteq> Exited \<Longrightarrow> Suc (running (ws[i := Exited])) = running ws"
proof (induction ws arbitrary: i)
  case Nil
  then show ?case by simp
next
  case (Cons w ws)
  show ?case
  proof (cases i)
    case 0
    with Cons.prems show ?thesis by (simp add: running_def)
  next
    case (Suc j)
    with Cons.prems have "j < length ws" "ws ! j \<noteq> Exited" by simp_all
    from Cons.IH [OF this] Suc show ?thesis by (simp add: running_def)
  qed
qed

lemma running_zero: "running ws = 0 \<Longrightarrow> \<forall>w \<in> set ws. w = Exited"
  by (simp add: running_def filter_empty_conv)

lemma running_pos: "running ws = Suc n \<Longrightarrow> \<exists>i < length ws. ws ! i \<noteq> Exited"
proof -
  assume "running ws = Suc n"
  then have "filter (\<lambda>w. w \<noteq> Exited) ws \<noteq> []"
    by (auto simp: running_def)
  then obtain w where "w \<in> set ws" "w \<noteq> Exited"
    unfolding filter_empty_conv by blast
  then show ?thesis
    by (metis in_set_conv_nth)
qed

lemma workers_can_exit:
  "ctxDone s \<Longrightarrow> running (workers s) = n \<Longrightarrow>
   \<exists>s'. (poolStep hasCallback)\<^sup>*\<^sup>* s s' \<and> (\<forall>w \<in> set (workers s'). w = Exited) \<and>
        results s' = results s"
proof (induction n arbitrary: s)
  case 0
  from running_zero [OF 0(2)] have "\<forall>w \<in> set (workers s). w = Exited" .
  then show ?case by (intro exI [of _ s]) simp
next
  case (Suc n)
  from running_pos [OF Suc.prems(2)] obtain i where
    i: "i < length (workers s)" and alive: "workers s ! i \<noteq> Exited" by blast
  let ?s1 = "s\<lparr>workers := (workers s)[i := Exited]\<rparr>"
  have st: "poolStep hasCallback s ?s1"
  proof (cases "workers s ! i")
    case Receiving
    from poolStep.Cancelled [OF i Receiving Suc.prems(1)] show ?thesis .
  next
    case (Sending r)
    from poolStep.Dropped [OF i Sending Suc.prems(1)] show ?thesis .
  next
    case Exited
    with alive show ?thesis by simp
  qed
  have less: "running (workers ?s1) = n"
    using running_update [OF i alive] Suc.prems(2) by simp
  have done': "ctxDone ?s1" using Suc.prems(1) by simp
  from Suc.IH [OF done' less] obtain s' where
    run: "(poolStep hasCallback)\<^sup>*\<^sup>* ?s1 s'" and ex: "\<forall>w \<in> set (workers s'). w = Exited"
    and res: "results s' = results ?s1"
    by (elim exE conjE)
  from st run have "(poolStep hasCallback)\<^sup>*\<^sup>* s s'"
    by (rule converse_rtranclp_into_rtranclp)
  with ex res show ?case by auto
qed

lemma results_can_drain:
  "\<forall>w \<in> set (workers s). w = Exited \<Longrightarrow> results s = rs \<Longrightarrow>
   \<exists>s'. (poolStep hasCallback)\<^sup>*\<^sup>* s s' \<and> finished s'"
proof (induction rs arbitrary: s)
  case Nil
  then show ?case by (auto simp: finished_def)
next
  case (Cons r rs)
  let ?s1 = "s\<lparr>results := rs, agg := drainResult hasCallback (agg s) r\<rparr>"
  from poolStep.Drain [OF Cons.prems(2)] have st: "poolStep hasCallback s ?s1" .
  have "\<forall>w \<in> set (workers ?s1). w = Exited" "results ?s1 = rs"
    using Cons.prems(1) by simp_all
  from Cons.IH [OF this] obtain s' where
    run: "(poolStep hasCallback)\<^sup>*\<^sup>* ?s1 s'" and fin: "finished s'"
    by (elim exE conjE)
  from st run have "(poolStep hasCallback)\<^sup>*\<^sup>* s s'"
    by (rule converse_rtranclp_into_rtranclp)
  with fin show ?case by blast
qed

text \<open>Every state of the pool can reach one in which the function returns.\<close>

lemma run_can_finish: "\<exists>s'. (poolStep hasCallback)\<^sup>*\<^sup>* s s' \<and> finished s'"
proof -
  let ?s1 = "s\<lparr>ctxDone := True\<rparr>"
  have c: "poolStep hasCallback s ?s1" by (rule poolStep.Cancel)
  have "ctxDone ?s1" by simp
  from workers_can_exit [OF this refl, of hasCallback]
  obtain s2 where s2: "(poolStep hasCallback)\<^sup>*\<^sup>* ?s1 s2" "\<forall>w \<in> set (workers s2). w = Exited"
    by (elim exE conjE)
  from results_can_drain [OF s2(2) refl, of hasCallback]
  obtain s3 where s3: "(poolStep hasCallback)\<^sup>*\<^sup>* s2 s3" and fin: "finished s3"
    by (elim exE conjE)
  from c s2(1) have "(poolStep hasCallback)\<^sup>*\<^sup>* s s2"
    by (rule converse_rtranclp_into_rtranclp)
  from this s3 have "(poolStep hasCallback)\<^sup>*\<^sup>* s s3"
    by (rule rtranclp_trans)
  with fin show ?thesis by blast
qed

subsection \<open>The claim about the worker pool\<close>

text \<open>
  C1, amended. When \<open>DownloadAllWithContext\<close> returns, no job has more than one result
  in the returned list and \<open>Stats.Total\<close> is the number of jobs. If the context was not
  cancelled during the run and there is at least one worker, the returned list holds
  exactly one result for every job, so its length is \<open>Stats.Total\<close>.
\<close>
theorem results_per_job:
  assumes "(poolStep hasCallback)\<^sup>*\<^sup>* (initPool d items) s" and "finished s"
  shows "mset (map Item (snd (returned s))) \<subseteq># mset items \<and>
         Total (fst (returned s)) = int (length items) \<and>
         (\<not> ctxDone s \<and> 0 < maxWorkers d \<longrightarrow>
            mset (map Item (snd (returned s))) = mset items \<and>
            int (length (snd (returned s))) = Total (fst (returned s)))"
proof -
  from invariant_run [OF assms(1)] have inv: "poolInvariant hasCallback d items s" .
  then have sub: "inPool s \<subseteq># mset items"
    and ag: "agg s = drain hasCallback items (allResults (agg s))"
    and len: "length (workers s) = nat (maxWorkers d)"
    by (simp_all add: poolInvariant_def)
  have "mset (map Item (allResults (agg s))) \<subseteq># inPool s"
    by (simp add: inPool_def)
  with sub have part1: "mset (map Item (snd (returned s))) \<subseteq># mset items"
    by (simp add: returned_def subset_mset.order_trans)
  have part2: "Total (fst (returned s)) = int (length items)"
    using ag drain_total [of hasCallback items "allResults (agg s)"] by (simp add: returned_def)
  have part3: "mset (map Item (snd (returned s))) = mset items \<and>
            int (length (snd (returned s))) = Total (fst (returned s))"
    if calm: "\<not> ctxDone s" and some: "0 < maxWorkers d"
  proof -
    from some len have "workers s \<noteq> []" by auto
    with assms(2) have "Exited \<in> set (workers s)"
      by (cases "workers s") (auto simp: finished_def)
    with inv calm have "jobs s = []" "unsent s = []" "inPool s = mset items"
      by (simp_all add: poolInvariant_def)
    moreover from assms(2) have "held (workers s) = {#}" "results s = []"
      by (simp_all add: finished_def held_all_exited)
    ultimately have eq: "mset (map Item (allResults (agg s))) = mset items"
      by (simp add: inPool_def)
    from mset_eq_length [OF eq] have "length (allResults (agg s)) = length items" by simp
    with eq part2 show ?thesis by (simp add: returned_def)
  qed
  from part1 part2 part3 show ?thesis by blast
qed

text \<open>
  C1 as stated fails: both \<open>select\<close> statements of a worker may take the case
  \<open>ctx.Done()\<close> and return. In this run of one worker on one job the job is sent and
  received, the context is cancelled, and the worker returns at its inner \<open>select\<close>
  without sending the result: the function returns no result although \<open>Stats.Total\<close>
  is 1.
\<close>
theorem results_per_job_counterexample:
  "(poolStep False)\<^sup>*\<^sup>* (initPool exampleDownloader [exampleItem]) cancelledPool \<and>
   finished cancelledPool \<and>
   snd (returned cancelledPool) = [] \<and>
   Total (fst (returned cancelledPool)) = 1"
proof -
  let ?a0 = "startAggregator [exampleItem]"
  let ?s0 = "initPool exampleDownloader [exampleItem]"
  let ?s1 = "\<lparr> ctxDone = False, unsent = [], jobsClosed = False, jobs = [exampleItem],
       workers = [Receiving], results = [], agg = ?a0 \<rparr>"
  let ?s2 = "\<lparr> ctxDone = False, unsent = [], jobsClosed = True, jobs = [exampleItem],
       workers = [Receiving], results = [], agg = ?a0 \<rparr>"
  let ?s3 = "\<lparr> ctxDone = True, unsent = [], jobsClosed = True, jobs = [exampleItem],
       workers = [Receiving], results = [], agg = ?a0 \<rparr>"
  let ?s4 = "\<lparr> ctxDone = True, unsent = [], jobsClosed = True, jobs = [],
       workers = [Sending (failed exampleItem Canceled)], results = [], agg = ?a0 \<rparr>"
  have s0: "?s0 = \<lparr> ctxDone = False, unsent = [exampleItem], jobsClosed = False, jobs = [],
       workers = [Receiving], results = [], agg = ?a0 \<rparr>"
    by (simp add: initPool_def exampleDownloader_def)
  have "poolStep False ?s0 ?s1"
    using poolStep.Send [of ?s0 exampleItem "[]" False] by (simp add: s0)
  moreover have "poolStep False ?s1 ?s2"
    using poolStep.SenderDone [of ?s1 False] by simp
  moreover have "poolStep False ?s2 ?s3"
    using poolStep.Cancel [of False ?s2] by simp
  moreover have "poolStep False ?s3 ?s4"
    using poolStep.Take [of 0 ?s3 exampleItem "[]" "failed exampleItem Canceled" False]
    by (simp add: failed_def)
  moreover have "poolStep False ?s4 cancelledPool"
    using poolStep.Dropped [of 0 ?s4 "failed exampleItem Canceled" False]
    by (simp add: cancelledPool_def)
  ultimately have "(poolStep False)\<^sup>*\<^sup>* ?s0 cancelledPool"
    by (meson r_into_rtranclp rtranclp.rtrancl_into_rtrancl)
  then show ?thesis
    by (simp add: finished_def returned_def cancelledPool_def startAggregator_def)
qed

text \<open>A run without cancellation: one worker, one job, one result.\<close>
theorem results_per_job_witness:
  "(poolStep False)\<^sup>*\<^sup>* (initPool exampleDownloader [exampleItem]) completedPool \<and>
   finished completedPool \<and> \<not> ctxDone completedPool \<and> 0 < maxWorkers exampleDownloader \<and>
   snd (returned completedPool) = [exampleResult] \<and>
   mset (map Item (snd (returned completedPool))) = mset [exampleItem] \<and>
   int (length (snd (returned completedPool))) = Total (fst (returned completedPool))"
proof -
  let ?a0 = "startAggregator [exampleItem]"
  let ?s0 = "initPool exampleDownloader [exampleItem]"
  let ?s1 = "\<lparr> ctxDone = False, unsent = [], jobsClosed = False, jobs = [exampleItem],
       workers = [Receiving], results = [], agg = ?a0 \<rparr>"
  let ?s2 = "\<lparr> ctxDone = False, unsent = [], jobsClosed = False, jobs = [],
       workers = [Sending exampleResult], results = [], agg = ?a0 \<rparr>"
  let ?s3 = "\<lparr> ctxDone = False, unsent = [], jobsClosed = False, jobs = [],
       workers = [Receiving], results = [exampleResult], agg = ?a0 \<rparr>"
  let ?s4 = "\<lparr> ctxDone = False, unsent = [], jobsClosed = False, jobs = [],
       workers = [Receiving], results = [], agg = drainResult False ?a0 exampleResult \<rparr>"
  let ?s5 = "\<lparr> ctxDone = False, unsent = [], jobsClosed = True, jobs = [],
       workers = [Receiving], results = [], agg = drainResult False ?a0 exampleResult \<rparr>"
  have s0: "?s0 = \<lparr> ctxDone = False, unsent = [exampleItem], jobsClosed = False, jobs = [],
       workers = [Receiving], results = [], agg = ?a0 \<rparr>"
    by (simp add: initPool_def exampleDownloader_def)
  have "poolStep False ?s0 ?s1"
    using poolStep.Send [of ?s0 exampleItem "[]" False] by (simp add: s0)
  moreover have "poolStep False ?s1 ?s2"
    using poolStep.Take [of 0 ?s1 exampleItem "[]" exampleResult False]
    by (simp add: exampleResult_def)
  moreover have "poolStep False ?s2 ?s3"
    using poolStep.Deliver [of 0 ?s2 exampleResult False] by simp
  moreover have "poolStep False ?s3 ?s4"
    using poolStep.Drain [of ?s3 exampleResult "[]" False] by simp
  moreover have "poolStep False ?s4 ?s5"
    using poolStep.SenderDone [of ?s4 False] by simp
  moreover have "poolStep False ?s5 completedPool"
    using poolStep.Closed [of 0 ?s5 False] by (simp add: completedPool_def)
  ultimately have run: "(poolStep False)\<^sup>*\<^sup>* ?s0 completedPool"
    by (meson r_into_rtranclp rtranclp.rtrancl_into_rtrancl)
  have fin: "finished completedPool" by (simp add: finished_def completedPool_def)
  have calm: "\<not> ctxDone completedPool" by (simp add: completedPool_def)
  have some: "0 < maxWorkers exampleDownloader" by (simp add: exampleDownloader_def)
  have ret: "snd (returned completedPool) = [exampleResult]"
    by (simp add: returned_def completedPool_def drainResult_def Let_def startAggregator_def)
  from results_per_job [OF run fin] calm some
  have "mset (map Item (snd (returned completedPool))) = mset [exampleItem] \<and>
     int (length (snd (returned completedPool))) = Total (fst (returned completedPool))"
    by blast
  with run fin calm some ret show ?thesis by blast
qed

end
